theory Spec2Isabelle
  imports Main "HOL-Library.Word" "HOL-Library.Sublist"
begin

section \<open>setupRoot.c: the privileged set-up orchestrator of shifter\<close>

text \<open>
  The development embeds \<^verbatim>\<open>src/udiRoot/src/setupRoot.c\<close>. Conventions:
  \<^item> a C string is the list of its characters before the terminating NUL; a
    \<^verbatim>\<open>char *\<close> is a \<open>string option\<close>, \<open>None\<close> being \<^verbatim>\<open>NULL\<close>;
  \<^item> \<^verbatim>\<open>malloc\<close>, \<^verbatim>\<open>realloc\<close> and \<^verbatim>\<open>strdup\<close> are taken to succeed; the
    branches the source takes when they return \<^verbatim>\<open>NULL\<close> are not part of the model;
  \<^item> \<^verbatim>\<open>exit\<close> inside a function is the left summand of its result;
  \<^item> the functions of the C library (\<^verbatim>\<open>isalnum\<close>, \<^verbatim>\<open>strtok\<close>, \<^verbatim>\<open>strtoul\<close>,
    \<^verbatim>\<open>getopt\<close>, \<^verbatim>\<open>clearenv\<close>, \<^verbatim>\<open>setenv\<close>) follow their documented behaviour on
    Linux with glibc (LP64), the platform the program is written for
    (\<^verbatim>\<open>_GNU_SOURCE\<close>, \<^verbatim>\<open>clearenv\<close>); the program never calls \<^verbatim>\<open>setlocale\<close>, so
    the character classes are those of the C locale.
\<close>

type_synonym cptr = "string option"

subsection \<open>Character classes (ctype.h, C locale)\<close>

definition isdigit :: "char \<Rightarrow> bool" where
  "isdigit c = (let n = (of_char c :: nat) in 48 \<le> n \<and> n \<le> 57)"

definition isupper :: "char \<Rightarrow> bool" where
  "isupper c = (let n = (of_char c :: nat) in 65 \<le> n \<and> n \<le> 90)"

definition islower :: "char \<Rightarrow> bool" where
  "islower c = (let n = (of_char c :: nat) in 97 \<le> n \<and> n \<le> 122)"

definition isalnum :: "char \<Rightarrow> bool" where
  "isalnum c = (isdigit c \<or> isupper c \<or> islower c)"

definition isspace :: "char \<Rightarrow> bool" where
  "isspace c = (let n = (of_char c :: nat) in n = 32 \<or> (9 \<le> n \<and> n \<le> 13))"

subsection \<open>\<^verbatim>\<open>_filterString\<close> (lines 309-330)\<close>

text \<open>The test of line 323.\<close>

definition keeps :: "char \<Rightarrow> bool" where
  "keeps c = (isalnum c \<or> c = CHR ''_'' \<or> c = CHR '':'' \<or> c = CHR ''.''
                \<or> c = CHR ''+'' \<or> c = CHR ''-'')"

text \<open>
  The loop of lines 322-327. The second argument is what \<^verbatim>\<open>rptr\<close> still has to
  read (\<open>[]\<close>: \<^verbatim>\<open>*rptr\<close> is the NUL), the third what has been written through
  \<^verbatim>\<open>wptr\<close>, so that \<^verbatim>\<open>wptr - ret\<close> is its length.
\<close>

fun filterString_loop :: "nat \<Rightarrow> string \<Rightarrow> string \<Rightarrow> string" where
  "filterString_loop len [] w = w"
| "filterString_loop len (c # rptr) w =
     (if length w < len
      then filterString_loop len rptr (if keeps c then w @ [c] else w)
      else w)"

definition filterString :: "cptr \<Rightarrow> cptr" where
  "filterString input =
     (case input of
        None \<Rightarrow> None
      | Some s \<Rightarrow> Some (filterString_loop (length s + 1) s []))"

text \<open>
  The character set as the specification writes it, \<^verbatim>\<open>[A-Za-z0-9_:.+-]\<close>, for
  comparison with \<open>keeps\<close>.
\<close>

definition permitted :: "char set" where
  "permitted = set (''ABCDEFGHIJKLMNOPQRSTUVWXYZ'' @ ''abcdefghijklmnopqrstuvwxyz''
                    @ ''0123456789'' @ ''_:.+-'')"

subsection \<open>Library functions used by the parser\<close>

text \<open>
  \<^verbatim>\<open>strtok\<close>: the first argument is the string still to be scanned (the
  argument of the first call, the saved position for a call with \<^verbatim>\<open>NULL\<close>); the
  result is the token, or \<^verbatim>\<open>NULL\<close> when only delimiters are left, and the new saved
  position.
\<close>

definition strtok :: "string \<Rightarrow> string \<Rightarrow> cptr \<times> string" where
  "strtok s delim =
     (let s1 = dropWhile (\<lambda>c. c \<in> set delim) s
      in if s1 = [] then (None, [])
         else (Some (takeWhile (\<lambda>c. c \<notin> set delim) s1),
               drop 1 (dropWhile (\<lambda>c. c \<notin> set delim) s1)))"

text \<open>
  \<^verbatim>\<open>strtoul(nptr, NULL, 10)\<close> with a 64-bit \<^verbatim>\<open>unsigned long\<close>: white space is
  skipped, one sign is accepted, the longest run of decimal digits is converted; no
  digit gives 0, a value beyond \<^verbatim>\<open>ULONG_MAX\<close> gives \<^verbatim>\<open>ULONG_MAX\<close>, a minus sign
  negates modulo \<open>2 ^ 64\<close>.
\<close>

fun digits_value :: "nat \<Rightarrow> string \<Rightarrow> nat" where
  "digits_value acc [] = acc"
| "digits_value acc (c # cs) = digits_value (acc * 10 + (of_char c - 48)) cs"

definition ULONG_MAX :: nat where
  "ULONG_MAX = 2 ^ 64 - 1"

definition strtoul_subject :: "string \<Rightarrow> string" where
  "strtoul_subject nptr =
     (let s = dropWhile isspace nptr
      in takeWhile isdigit
           (if take 1 s = ''-'' \<or> take 1 s = ''+'' then drop 1 s else s))"

definition strtoul :: "string \<Rightarrow> 64 word" where
  "strtoul nptr =
     (let negative = (take 1 (dropWhile isspace nptr) = ''-'');
          ds = strtoul_subject nptr;
          v = digits_value 0 ds
      in if ds = [] then 0
         else if ULONG_MAX < v then of_nat ULONG_MAX
         else if negative then - of_nat v
         else of_nat v)"

text \<open>
  \<^verbatim>\<open>getopt\<close> for short options. After \<^verbatim>\<open>clearenv\<close> the variable
  \<^verbatim>\<open>POSIXLY_CORRECT\<close> is unset and the option string starts with a letter, so glibc
  scans in its permuting mode: arguments that are not options are passed over and end
  up, in their order, after the options; \<^verbatim>\<open>--\<close> ends the options. The state holds the
  rest of the option cluster being read (\<open>nextchar\<close>), the elements of \<^verbatim>\<open>argv\<close> not
  yet looked at and the non-options passed over. \<open>End\<close> is the return value -1; then
  \<^verbatim>\<open>argv[optind]\<close>, ..., \<^verbatim>\<open>argv[argc - 1]\<close> are the \<open>skipped\<close> elements of the state.
  \<open>Bad\<close> is the return value \<^verbatim>\<open>'?'\<close> (a character that is no option, or a missing
  argument). The program leaves \<^verbatim>\<open>opterr\<close> at 1, so before it returns \<^verbatim>\<open>'?'\<close>
  \<^verbatim>\<open>getopt\<close> writes a line of its own to the error stream; that line is not recorded:
  the error stream of the model holds the lines the program writes with \<^verbatim>\<open>fprintf\<close>.
\<close>

datatype getopt_ret = End | NoArg char | Arg char string | Bad

record getopt_state =
  nextchar :: string
  pending :: "string list"
  skipped :: "string list"

fun strchr :: "string \<Rightarrow> char \<Rightarrow> string option" where
  "strchr [] c = None"
| "strchr (x # xs) c = (if x = c then Some (x # xs) else strchr xs c)"

definition NONOPTION_P :: "string \<Rightarrow> bool" where
  "NONOPTION_P a = (case a of c # d # r \<Rightarrow> c \<noteq> CHR ''-'' | _ \<Rightarrow> True)"

definition getopt_short :: "string \<Rightarrow> getopt_state \<Rightarrow> getopt_ret \<times> getopt_state" where
  "getopt_short optstring st =
     (case nextchar st of
        [] \<Rightarrow> (End, st)
      | c # nc \<Rightarrow>
          (case strchr optstring c of
             None \<Rightarrow> (Bad, st\<lparr>nextchar := nc\<rparr>)
           | Some temp \<Rightarrow>
               if c = CHR '':'' \<or> c = CHR '';'' then (Bad, st\<lparr>nextchar := nc\<rparr>)
               else if take 1 (drop 1 temp) = '':'' then
                 if take 1 (drop 2 temp) = '':'' then
                   (if nc \<noteq> [] then (Arg c nc, st\<lparr>nextchar := []\<rparr>)
                    else (NoArg c, st\<lparr>nextchar := []\<rparr>))
                 else if nc \<noteq> [] then (Arg c nc, st\<lparr>nextchar := []\<rparr>)
                 else (case pending st of
                         [] \<Rightarrow> (Bad, st\<lparr>nextchar := []\<rparr>)
                       | a # rest \<Rightarrow> (Arg c a, st\<lparr>nextchar := [], pending := rest\<rparr>))
               else (NoArg c, st\<lparr>nextchar := nc\<rparr>)))"

fun getopt_advance :: "string \<Rightarrow> string list \<Rightarrow> string list \<Rightarrow> getopt_ret \<times> getopt_state" where
  "getopt_advance optstring sk [] = (End, \<lparr>nextchar = [], pending = [], skipped = sk\<rparr>)"
| "getopt_advance optstring sk (a # rest) =
     (if NONOPTION_P a then getopt_advance optstring (sk @ [a]) rest
      else if a = ''--'' then (End, \<lparr>nextchar = [], pending = [], skipped = sk @ rest\<rparr>)
      else getopt_short optstring \<lparr>nextchar = tl a, pending = rest, skipped = sk\<rparr>)"

definition getopt :: "string \<Rightarrow> getopt_state \<Rightarrow> getopt_ret \<times> getopt_state" where
  "getopt optstring st =
     (if nextchar st \<noteq> [] then getopt_short optstring st
      else getopt_advance optstring (skipped st) (pending st))"

text \<open>\<^verbatim>\<open>argv[i]\<close>: the vector ends with a null pointer at index \<^verbatim>\<open>argc\<close>.\<close>

definition argv_at :: "string list \<Rightarrow> nat \<Rightarrow> cptr" where
  "argv_at xs i = (if i < length xs then Some (xs ! i) else None)"

subsection \<open>The configuration (lines 72-90)\<close>

text \<open>
  A block obtained from \<^verbatim>\<open>realloc\<close> for one of the three arrays of \<^verbatim>\<open>char *\<close>:
  the size in bytes that was asked for, and the pointers stored in it by slot index
  (\<open>None\<close>: nothing stored yet, \<open>Some None\<close>: a null pointer). \<^verbatim>\<open>realloc\<close> keeps
  what is stored; the stores themselves are not checked against the size, which is
  kept so that they can be compared with it. The three \<^verbatim>\<open>_ptr\<close> fields are
  positions inside the blocks, kept as the number of slots from the start of the block
  (the value of \<^verbatim>\<open>volumeMapFrom_ptr - volumeMapFrom\<close>). A store through a null
  array pointer leaves it null; there is none in a run of the parser, where the test
  of line 187 holds at every \<^verbatim>\<open>-v\<close> (the capacity is 0) and the three arrays are
  allocated before the stores.
\<close>

record block =
  bytes :: nat
  cell :: "nat \<Rightarrow> cptr option"

definition realloc :: "block option \<Rightarrow> nat \<Rightarrow> block option" where
  "realloc p n =
     (case p of
        None \<Rightarrow> Some \<lparr>bytes = n, cell = (\<lambda>i. None)\<rparr>
      | Some b \<Rightarrow> Some (b\<lparr>bytes := n\<rparr>))"

definition store :: "block option \<Rightarrow> nat \<Rightarrow> cptr \<Rightarrow> block option" where
  "store p i v = map_option (\<lambda>b. b\<lparr>cell := (cell b)(i := Some v)\<rparr>) p"

definition VOLUME_ALLOC_BLOCK :: nat where
  "VOLUME_ALLOC_BLOCK = 10"

record SetupRootConfig =
  sshPubKey :: cptr
  user :: cptr
  imageType :: cptr
  imageIdentifier :: cptr
  uid :: "32 word"
  minNodeSpec :: cptr
  volumeMapFrom :: "block option"
  volumeMapTo :: "block option"
  volumeMapFlags :: "block option"
  volumeMap_capacity :: nat
  volumeMapFrom_ptr :: nat
  volumeMapTo_ptr :: nat
  volumeMapFlags_ptr :: nat
  verbose :: int

text \<open>The configuration after \<^verbatim>\<open>memset(&config, 0, sizeof(SetupRootConfig))\<close>.\<close>

definition zero_SetupRootConfig :: SetupRootConfig where
  "zero_SetupRootConfig =
     \<lparr>sshPubKey = None, user = None, imageType = None, imageIdentifier = None,
      uid = 0, minNodeSpec = None,
      volumeMapFrom = None, volumeMapTo = None, volumeMapFlags = None,
      volumeMap_capacity = 0,
      volumeMapFrom_ptr = 0, volumeMapTo_ptr = 0, volumeMapFlags_ptr = 0,
      verbose = 0\<rparr>"

subsection \<open>Leaving the process: \<^verbatim>\<open>_usage\<close> (lines 164-166)\<close>

text \<open>
  \<open>Exit st out\<close>: the process has called \<^verbatim>\<open>exit(st)\<close>, having written the lines
  \<open>out\<close> to the error stream. \<^verbatim>\<open>_usage\<close> writes nothing and exits with its argument.
\<close>

datatype exited = Exit int "string list"

definition usage :: "int \<Rightarrow> exited" where
  "usage exitStatus = Exit exitStatus []"

definition fprintf_stderr :: "string \<Rightarrow> exited \<Rightarrow> exited" where
  "fprintf_stderr msg e = (case e of Exit st out \<Rightarrow> Exit st (msg # out))"

subsection \<open>\<^verbatim>\<open>parse_SetupRootConfig\<close> (lines 168-243)\<close>

text \<open>The case \<^verbatim>\<open>'v'\<close> of the switch, lines 175-213.\<close>

definition case_v :: "string \<Rightarrow> SetupRootConfig \<Rightarrow> exited + SetupRootConfig" where
  "case_v optarg config =
     (let (from, save1) = strtok optarg '':'';
          (to, save2) = strtok save1 '':'';
          (flags, save3) = strtok save2 '':'';
          cnt = volumeMapFrom_ptr config
      in if from = None \<or> to = None
         then Inl (fprintf_stderr ''ERROR: invalid format for volume map!'' (usage 1))
         else
           let config =
                 (if volumeMapFrom config = None \<or> cnt + 2 \<ge> volumeMap_capacity config
                  then
                    let fromPtr = realloc (volumeMapFrom config)
                                    (volumeMap_capacity config + VOLUME_ALLOC_BLOCK);
                        toPtr = realloc (volumeMapTo config)
                                    (volumeMap_capacity config + VOLUME_ALLOC_BLOCK);
                        flagsPtr = realloc (volumeMapFlags config)
                                    (volumeMap_capacity config + VOLUME_ALLOC_BLOCK)
                    in config\<lparr>volumeMapFrom := fromPtr, volumeMapTo := toPtr,
                              volumeMapFlags := flagsPtr,
                              volumeMapFrom_ptr := cnt, volumeMapTo_ptr := cnt,
                              volumeMapFlags_ptr := cnt\<rparr>
                  else config);
               config = config\<lparr>
                 volumeMapFrom := store (volumeMapFrom config) (volumeMapFrom_ptr config) from,
                 volumeMapTo := store (volumeMapTo config) (volumeMapTo_ptr config) to,
                 volumeMapFlags := store (volumeMapFlags config) (volumeMapFlags_ptr config) flags\<rparr>;
               config = config\<lparr>
                 volumeMapFrom_ptr := volumeMapFrom_ptr config + 1,
                 volumeMapTo_ptr := volumeMapTo_ptr config + 1,
                 volumeMapFlags_ptr := volumeMapFlags_ptr config + 1\<rparr>;
               config = config\<lparr>
                 volumeMapFrom := store (volumeMapFrom config) (volumeMapFrom_ptr config) None,
                 volumeMapTo := store (volumeMapTo config) (volumeMapTo_ptr config) None,
                 volumeMapFlags := store (volumeMapFlags config) (volumeMapFlags_ptr config) None\<rparr>
           in Inr config)"

text \<open>The switch of lines 173-232, on what \<^verbatim>\<open>getopt\<close> returned.\<close>

fun switch_opt :: "getopt_ret \<Rightarrow> SetupRootConfig \<Rightarrow> exited + SetupRootConfig" where
  "switch_opt (NoArg c) config =
     (if c = CHR ''V'' then Inr (config\<lparr>verbose := 1\<rparr>) else Inr config)"
| "switch_opt (Arg c optarg) config =
     (if c = CHR ''v'' then case_v optarg config
      else if c = CHR ''s'' then Inr (config\<lparr>sshPubKey := Some optarg\<rparr>)
      else if c = CHR ''u'' then Inr (config\<lparr>user := Some optarg\<rparr>)
      else if c = CHR ''U'' then Inr (config\<lparr>uid := ucast (strtoul optarg)\<rparr>)
      else if c = CHR ''N'' then Inr (config\<lparr>minNodeSpec := Some optarg\<rparr>)
      else Inr config)"
| "switch_opt Bad config =
     Inl (fprintf_stderr ''Missing an argument!\<newline>'' (usage 1))"
| "switch_opt End config = Inr config"

definition optstring :: string where
  "optstring = ''v:s:u:U:N:V''"

text \<open>What is left for \<^verbatim>\<open>getopt\<close> to read: a measure for the loop of line 172.\<close>

definition unread :: "getopt_state \<Rightarrow> nat" where
  "unread st = length (nextchar st) + sum_list (map (\<lambda>a. Suc (length a)) (pending st))"

lemma getopt_short_unread:
  "nextchar st \<noteq> [] \<Longrightarrow> getopt_short os st = (r, st') \<Longrightarrow> unread st' < unread st"
  by (cases "nextchar st")
     (auto simp: getopt_short_def unread_def split: option.splits if_splits list.splits)

lemma getopt_advance_unread:
  "getopt_advance os sk ps = (r, st') \<Longrightarrow> r \<noteq> End \<Longrightarrow>
   unread st' < sum_list (map (\<lambda>a. Suc (length a)) ps)"
proof (induction os sk ps rule: getopt_advance.induct)
  case (1 os sk)
  then show ?case by simp
next
  case (2 os sk a rest)
  show ?case
  proof (cases "NONOPTION_P a")
    case True
    with 2 show ?thesis by simp
  next
    case False
    then have ne: "tl a \<noteq> []"
      by (auto simp: NONOPTION_P_def split: list.splits)
    from False 2 have short:
      "getopt_short os \<lparr>nextchar = tl a, pending = rest, skipped = sk\<rparr> = (r, st')"
      by (simp split: if_splits)
    from getopt_short_unread [OF _ short] ne
    have "unread st' < unread \<lparr>nextchar = tl a, pending = rest, skipped = sk\<rparr>"
      by simp
    then show ?thesis by (simp add: unread_def)
  qed
qed

lemma getopt_unread:
  "getopt os st = (r, st') \<Longrightarrow> r \<noteq> End \<Longrightarrow> unread st' < unread st"
  by (auto simp: getopt_def unread_def split: if_splits
           dest: getopt_short_unread [unfolded unread_def] getopt_advance_unread [unfolded unread_def])

text \<open>
  The loop of lines 172-233: it ends when \<^verbatim>\<open>getopt\<close> returns -1, with the
  configuration and the arguments left at \<^verbatim>\<open>argv[optind]\<close> and after, or inside the
  switch, when the process exits.
\<close>

function parse_loop :: "getopt_state \<Rightarrow> SetupRootConfig \<Rightarrow> exited + (SetupRootConfig \<times> string list)" where
  "parse_loop st config =
     (let (opt, st') = getopt optstring st
      in if opt = End then Inr (config, skipped st')
         else (case switch_opt opt config of
                 Inl e \<Rightarrow> Inl e
               | Inr config' \<Rightarrow> parse_loop st' config'))"
  by pat_completeness auto
termination
  by (relation "measure (\<lambda>(st, config). unread st)") (auto dest: getopt_unread [OF sym])

declare parse_loop.simps [simp del]

text \<open>
  The whole function. \<^verbatim>\<open>getopt\<close> starts at \<^verbatim>\<open>optind = 1\<close> and returns -1 at once
  when \<^verbatim>\<open>argc\<close> is 0, leaving \<^verbatim>\<open>optind\<close> at 1; otherwise \<^verbatim>\<open>optind\<close> ends at the
  first of the arguments left. The result \<open>Inr (0, config)\<close> is the return of line 242.
\<close>

definition parse_SetupRootConfig ::
    "string list \<Rightarrow> SetupRootConfig \<Rightarrow> exited + (int \<times> SetupRootConfig)" where
  "parse_SetupRootConfig argv config =
     (case parse_loop \<lparr>nextchar = [], pending = drop 1 argv, skipped = []\<rparr> config of
        Inl e \<Rightarrow> Inl e
      | Inr (config, rest) \<Rightarrow>
          let argc = int (length argv);
              optind = (if argv = [] then 1 else argc - int (length rest));
              remaining = argc - optind
          in if remaining \<noteq> 2
             then Inl (fprintf_stderr ''Must specify image type and image identifier\<newline>'' (usage 1))
             else Inr (0, config\<lparr>imageType := filterString (argv_at rest 0),
                                 imageIdentifier := filterString (argv_at rest 1)\<rparr>))"

subsection \<open>The environment\<close>

text \<open>The environment is the list of its \<^verbatim>\<open>name=value\<close> entries.\<close>

type_synonym env = "(string \<times> string) list"

definition clearenv :: "env \<Rightarrow> env" where
  "clearenv e = []"

fun setenv :: "string \<Rightarrow> string \<Rightarrow> int \<Rightarrow> env \<Rightarrow> env" where
  "setenv name val overwrite [] = [(name, val)]"
| "setenv name val overwrite ((n, v) # e) =
     (if n = name then (if overwrite \<noteq> 0 then (name, val) # e else (n, v) # e)
      else (n, v) # setenv name val overwrite e)"

subsection \<open>The collaborators\<close>

text \<open>
  \<^verbatim>\<open>ImageData.h\<close>, \<^verbatim>\<open>UdiRootConfig.h\<close> and \<^verbatim>\<open>shifter_core.h\<close> are not part of the
  sources at hand. Of \<^verbatim>\<open>ImageData\<close> the program reads the field \<^verbatim>\<open>useLoopMount\<close>
  only. The functions declared in these headers are parameters of the model: each takes
  the arguments the program passes and the state \<open>'w\<close> of everything outside the
  program's own variables (the site configuration, the mount table, the files), and
  gives its return value and the new state.
\<close>

record ImageData =
  useLoopMount :: int

definition zero_ImageData :: ImageData where
  "zero_ImageData = \<lparr>useLoopMount = 0\<rparr>"

record 'w collaborators =
  parse_UdiRootConfig :: "'w \<Rightarrow> int \<times> 'w"
  parse_ImageData :: "cptr \<Rightarrow> ImageData \<Rightarrow> 'w \<Rightarrow> int \<times> ImageData \<times> 'w"
  mountImageLoop :: "ImageData \<Rightarrow> 'w \<Rightarrow> int \<times> 'w"
  mountImageVFS :: "ImageData \<Rightarrow> cptr \<Rightarrow> cptr \<Rightarrow> 'w \<Rightarrow> int \<times> 'w"
  setupImageSsh :: "cptr \<Rightarrow> cptr \<Rightarrow> 32 word \<Rightarrow> 'w \<Rightarrow> int \<times> 'w"
  startSshd :: "'w \<Rightarrow> int \<times> 'w"
  setupUserMounts :: "ImageData \<Rightarrow> block option \<Rightarrow> block option \<Rightarrow> block option \<Rightarrow> 'w \<Rightarrow> int \<times> 'w"

subsection \<open>\<^verbatim>\<open>getImage\<close> (lines 304-307)\<close>

definition getImage ::
    "'w collaborators \<Rightarrow> ImageData \<Rightarrow> SetupRootConfig \<Rightarrow> 'w \<Rightarrow> int \<times> ImageData \<times> 'w" where
  "getImage K imageData config w =
     (let (ret, imageData, w) = parse_ImageData K (imageIdentifier config) imageData w
      in (ret, imageData, w))"

subsection \<open>\<^verbatim>\<open>main\<close> (lines 99-162)\<close>

text \<open>
  The state of the process: the environment, the lines the program has written to the
  error stream with \<^verbatim>\<open>fprintf\<close> (not those \<^verbatim>\<open>getopt\<close> writes there itself), the
  variables \<^verbatim>\<open>config\<close> and \<^verbatim>\<open>image\<close> of \<^verbatim>\<open>main\<close>, the state outside, and a log
  of the calls \<^verbatim>\<open>main\<close> has made, in their order: the function called, the
  environment at the moment of the call, and the value returned (\<open>None\<close> when the
  process exited inside the call). The dumps written to the standard output when
  \<^verbatim>\<open>verbose\<close> is set (lines 120-123 and 129-131) change none of these and are left out.
\<close>

datatype step =
    Step_clearenv | Step_setenv | Step_parse_SetupRootConfig | Step_parse_UdiRootConfig
  | Step_getImage | Step_mountImageLoop | Step_mountImageVFS | Step_setupImageSsh
  | Step_startSshd | Step_setupUserMounts

type_synonym event = "step \<times> env \<times> int option"

record 'w proc =
  environ :: env
  stderr :: "string list"
  trace :: "event list"
  world :: 'w
  config :: SetupRootConfig
  image :: ImageData

definition called :: "step \<Rightarrow> int option \<Rightarrow> 'w proc \<Rightarrow> 'w proc" where
  "called s r p = p\<lparr>trace := trace p @ [(s, environ p, r)]\<rparr>"

text \<open>\<^verbatim>\<open>fprintf(stderr, msg); exit(1);\<close>\<close>

definition fail :: "string \<Rightarrow> 'w proc \<Rightarrow> int \<times> 'w proc" where
  "fail msg p = (1, p\<lparr>stderr := stderr p @ [msg]\<rparr>)"

text \<open>\<^verbatim>\<open>%s\<close> of glibc's \<^verbatim>\<open>printf\<close>.\<close>

definition percent_s :: "cptr \<Rightarrow> string" where
  "percent_s p = (case p of None \<Rightarrow> ''(null)'' | Some s \<Rightarrow> s)"

definition strlen :: "string \<Rightarrow> nat" where
  "strlen s = length s"

text \<open>Line 156 to the end.\<close>

definition main_user_mounts :: "'w collaborators \<Rightarrow> 'w proc \<Rightarrow> int \<times> 'w proc" where
  "main_user_mounts K p =
     (let (rc, w) = setupUserMounts K (image p) (volumeMapFrom (config p))
                      (volumeMapTo (config p)) (volumeMapFlags (config p)) (world p);
          p = (called Step_setupUserMounts (Some rc) p)\<lparr>world := w\<rparr>
      in if rc \<noteq> 0 then fail ''FAILED to setup user-requested mounts.\<newline>'' p
         else (0, p))"

text \<open>Line 143 to the end.\<close>

definition main_ssh :: "'w collaborators \<Rightarrow> 'w proc \<Rightarrow> int \<times> 'w proc" where
  "main_ssh K p =
     (if (case sshPubKey (config p) of
            None \<Rightarrow> False
          | Some key \<Rightarrow>
              strlen key > 0
              \<and> (case user (config p) of
                    None \<Rightarrow> False
                  | Some u \<Rightarrow> strlen u > 0 \<and> uid (config p) \<noteq> 0))
      then
        let (rc, w) = setupImageSsh K (sshPubKey (config p)) (user (config p))
                        (uid (config p)) (world p);
            p = (called Step_setupImageSsh (Some rc) p)\<lparr>world := w\<rparr>
        in if rc \<noteq> 0 then fail ''FAILED to setup ssh configuration\<newline>'' p
           else
             let (rc, w) = startSshd K (world p);
                 p = (called Step_startSshd (Some rc) p)\<lparr>world := w\<rparr>
             in if rc \<noteq> 0 then fail ''FAILED to start sshd\<newline>'' p
                else main_user_mounts K p
      else main_user_mounts K p)"

text \<open>Line 138 to the end.\<close>

definition main_vfs :: "'w collaborators \<Rightarrow> 'w proc \<Rightarrow> int \<times> 'w proc" where
  "main_vfs K p =
     (let (rc, w) = mountImageVFS K (image p) (user (config p)) (minNodeSpec (config p))
                      (world p);
          p = (called Step_mountImageVFS (Some rc) p)\<lparr>world := w\<rparr>
      in if rc \<noteq> 0 then fail ''FAILED to mount image into UDI\<newline>'' p
         else main_ssh K p)"

text \<open>Line 116 to the end: what \<^verbatim>\<open>main\<close> does with the parsed configuration.\<close>

definition main_pipeline :: "'w collaborators \<Rightarrow> 'w proc \<Rightarrow> int \<times> 'w proc" where
  "main_pipeline K p =
     (let (rc, w) = parse_UdiRootConfig K (world p);
          p = (called Step_parse_UdiRootConfig (Some rc) p)\<lparr>world := w\<rparr>
      in if rc \<noteq> 0 then fail ''FAILED to parse udiRoot configuration. Exiting.\<newline>'' p
         else
           let (rc, img, w) = getImage K (image p) (config p) (world p);
               p = (called Step_getImage (Some rc) p)\<lparr>image := img, world := w\<rparr>
           in if rc \<noteq> 0
              then fail (''FAILED to get image '' @ percent_s (imageIdentifier (config p))
                         @ '' of type '' @ percent_s (imageType (config p)) @ ''\<newline>'') p
              else if useLoopMount (image p) \<noteq> 0
              then
                let (rc, w) = mountImageLoop K (image p) (world p);
                    p = (called Step_mountImageLoop (Some rc) p)\<lparr>world := w\<rparr>
                in if rc \<noteq> 0 then fail ''FAILED to mount image on loop device.\<newline>'' p
                   else main_vfs K p
              else main_vfs K p)"

text \<open>
  The whole of \<^verbatim>\<open>main\<close>: the program is started with the arguments \<open>argv\<close>, in the
  environment \<open>envp\<close>, the state outside being \<open>w0\<close>. The result is the exit status
  and the state of the process at its end.
\<close>

definition main :: "'w collaborators \<Rightarrow> string list \<Rightarrow> env \<Rightarrow> 'w \<Rightarrow> int \<times> 'w proc" where
  "main K argv envp w0 =
     (let p = \<lparr>environ = envp, stderr = [], trace = [], world = w0,
               config = zero_SetupRootConfig, image = zero_ImageData\<rparr>;
          p = (called Step_clearenv (Some 0) p)\<lparr>environ := clearenv (environ p)\<rparr>;
          p = (called Step_setenv (Some 0) p)
                \<lparr>environ := setenv ''PATH'' ''/usr/bin:/usr/sbin:/bin:/sbin'' 1 (environ p)\<rparr>
      in case parse_SetupRootConfig argv (config p) of
           Inl (Exit st out) \<Rightarrow>
             (st, (called Step_parse_SetupRootConfig None p)\<lparr>stderr := stderr p @ out\<rparr>)
         | Inr (rc, cfg) \<Rightarrow>
             let p = (called Step_parse_SetupRootConfig (Some rc) p)\<lparr>config := cfg\<rparr>
             in if rc \<noteq> 0
                then (case fprintf_stderr
                             ''FAILED to parse command line arguments. Exiting.\<newline>''
                             (usage 1) of
                        Exit st out \<Rightarrow> (st, p\<lparr>stderr := stderr p @ out\<rparr>))
                else main_pipeline K p)"

subsection \<open>The pipeline as a state machine\<close>

text \<open>
  The gate of lines 143-145 in the words of the specification: the key and the user are
  present and not empty, and the uid is not zero.
\<close>

definition ssh_gate :: "SetupRootConfig \<Rightarrow> bool" where
  "ssh_gate c \<longleftrightarrow>
     (\<exists>k u. sshPubKey c = Some k \<and> k \<noteq> [] \<and> user c = Some u \<and> u \<noteq> [] \<and> uid c \<noteq> 0)"

text \<open>
  The stage that follows a stage that has succeeded, for a resolved image and a parsed
  configuration (section 4.4 of the specification), and the traces of a machine that
  starts at a stage, goes on to the next stage after a return value 0 and stops
  after any other.
\<close>

fun next_stage :: "ImageData \<Rightarrow> SetupRootConfig \<Rightarrow> step \<Rightarrow> step option" where
  "next_stage img c Step_parse_UdiRootConfig = Some Step_getImage"
| "next_stage img c Step_getImage =
     (if useLoopMount img \<noteq> 0 then Some Step_mountImageLoop else Some Step_mountImageVFS)"
| "next_stage img c Step_mountImageLoop = Some Step_mountImageVFS"
| "next_stage img c Step_mountImageVFS =
     (if ssh_gate c then Some Step_setupImageSsh else Some Step_setupUserMounts)"
| "next_stage img c Step_setupImageSsh = Some Step_startSshd"
| "next_stage img c Step_startSshd = Some Step_setupUserMounts"
| "next_stage img c Step_setupUserMounts = None"
| "next_stage img c s = None"

fun chain :: "(step \<Rightarrow> step option) \<Rightarrow> env \<Rightarrow> step \<Rightarrow> event list \<Rightarrow> bool" where
  "chain nxt E s [] = False"
| "chain nxt E s ((s', E', r) # es) =
     (s' = s \<and> E' = E \<and>
      (case r of
         None \<Rightarrow> False
       | Some rc \<Rightarrow>
           if rc \<noteq> 0 then es = []
           else (case nxt s of None \<Rightarrow> es = [] | Some s2 \<Rightarrow> chain nxt E s2 es)))"

text \<open>The line each stage of the pipeline writes when it fails.\<close>

fun diagnostic :: "step \<Rightarrow> SetupRootConfig \<Rightarrow> string" where
  "diagnostic Step_parse_UdiRootConfig c = ''FAILED to parse udiRoot configuration. Exiting.\<newline>''"
| "diagnostic Step_getImage c =
     ''FAILED to get image '' @ percent_s (imageIdentifier c) @ '' of type ''
       @ percent_s (imageType c) @ ''\<newline>''"
| "diagnostic Step_mountImageLoop c = ''FAILED to mount image on loop device.\<newline>''"
| "diagnostic Step_mountImageVFS c = ''FAILED to mount image into UDI\<newline>''"
| "diagnostic Step_setupImageSsh c = ''FAILED to setup ssh configuration\<newline>''"
| "diagnostic Step_startSshd c = ''FAILED to start sshd\<newline>''"
| "diagnostic Step_setupUserMounts c = ''FAILED to setup user-requested mounts.\<newline>''"
| "diagnostic s c = []"

text \<open>The lines \<^verbatim>\<open>parse_SetupRootConfig\<close> writes before it exits.\<close>

definition parse_diagnostics :: "string set" where
  "parse_diagnostics =
     {''ERROR: invalid format for volume map!'', ''Missing an argument!\<newline>'',
      ''Must specify image type and image identifier\<newline>''}"

definition diagnostics :: "step \<Rightarrow> SetupRootConfig \<Rightarrow> string set" where
  "diagnostics s c =
     (if s = Step_clearenv \<or> s = Step_setenv then {}
      else if s = Step_parse_SetupRootConfig then parse_diagnostics
      else {diagnostic s c})"

definition trusted_env :: env where
  "trusted_env = [(''PATH'', ''/usr/bin:/usr/sbin:/bin:/sbin'')]"

text \<open>The first three entries of every log: the reset of the environment and the parser.\<close>

definition prologue :: "env \<Rightarrow> int option \<Rightarrow> event list" where
  "prologue envp r =
     [(Step_clearenv, envp, Some 0), (Step_setenv, [], Some 0),
      (Step_parse_SetupRootConfig, trusted_env, r)]"

text \<open>
  \<open>ran img s p r\<close>: the result \<open>r\<close> comes from the state \<open>p\<close> by a run of the
  machine from stage \<open>s\<close>; the exit status is 0 when the last call returned 0, and 1
  with the line of that stage on the error stream otherwise.
\<close>

definition ran :: "ImageData \<Rightarrow> step \<Rightarrow> 'w proc \<Rightarrow> int \<times> 'w proc \<Rightarrow> bool" where
  "ran img s p r \<longleftrightarrow>
     (case r of (st, q) \<Rightarrow>
        environ q = environ p \<and> config q = config p \<and>
        (\<exists>evs. trace q = trace p @ evs \<and> chain (next_stage img (config p)) (environ p) s evs
           \<and> st = (if snd (snd (last evs)) = Some 0 then 0 else 1)
           \<and> stderr q = stderr p @ (if snd (snd (last evs)) = Some 0 then []
                                      else [diagnostic (fst (last evs)) (config p)])))"

subsection \<open>Reading a log\<close>

abbreviation ret :: "event \<Rightarrow> int option" where
  "ret e \<equiv> snd (snd e)"

definition invoked :: "step \<Rightarrow> event list \<Rightarrow> bool" where
  "invoked s tr \<longleftrightarrow> (\<exists>e \<in> set tr. fst e = s)"

definition succeeded :: "step \<Rightarrow> event list \<Rightarrow> bool" where
  "succeeded s tr \<longleftrightarrow> (\<exists>e \<in> set tr. fst e = s \<and> ret e = Some 0)"

text \<open>\<open>never_before b a tr\<close>: every call of \<open>b\<close> comes after a call of \<open>a\<close> that returned 0.\<close>

definition never_before :: "step \<Rightarrow> step \<Rightarrow> event list \<Rightarrow> bool" where
  "never_before b a tr \<longleftrightarrow>
     (\<forall>i < length tr. fst (tr ! i) = b \<longrightarrow>
        (\<exists>j < i. fst (tr ! j) = a \<and> ret (tr ! j) = Some 0))"

subsection \<open>Reading the volume map\<close>

text \<open>
  The tokens the three calls of \<^verbatim>\<open>strtok\<close> with the delimiter \<^verbatim>\<open>":"\<close> cut from the
  argument of \<^verbatim>\<open>-v\<close> (lines 178-180): \<open>split_colon\<close> cuts the argument at every colon,
  and \<open>fields\<close> keeps the pieces that are not empty, since \<^verbatim>\<open>strtok\<close> skips a run of
  delimiters. \<open>entry x\<close> is what the code stores for the argument \<open>x\<close>: the first token,
  the second and, if there is one, the third.
\<close>

fun split_colon :: "string \<Rightarrow> string list" where
  "split_colon [] = [[]]"
| "split_colon (c # cs) =
     (if c = CHR '':'' then [] # split_colon cs
      else (case split_colon cs of [] \<Rightarrow> [[c]] | f # fs \<Rightarrow> (c # f) # fs))"

definition fields :: "string \<Rightarrow> string list" where
  "fields s = filter (\<lambda>f. f \<noteq> []) (split_colon s)"

definition field :: "string \<Rightarrow> nat \<Rightarrow> cptr" where
  "field s i = (if i < length (fields s) then Some (fields s ! i) else None)"

definition entry :: "string \<Rightarrow> string \<times> string \<times> cptr" where
  "entry x = (fields x ! 0, fields x ! 1, field x 2)"

text \<open>
  The argument as the specification writes it, \<^verbatim>\<open>from:to[:flags]\<close>: \<^verbatim>\<open>from\<close> is what
  stands before the first colon (position 0), \<^verbatim>\<open>to\<close> what stands between the first
  colon and the second (position 1). A component is missing when its position does not
  exist or is empty.
\<close>

definition position :: "string \<Rightarrow> nat \<Rightarrow> cptr" where
  "position x i =
     (if i < length (split_colon x) \<and> split_colon x ! i \<noteq> [] then Some (split_colon x ! i)
      else None)"

definition from_or_to_missing :: "string \<Rightarrow> bool" where
  "from_or_to_missing x \<longleftrightarrow> position x 0 = None \<or> position x 1 = None"

text \<open>
  The volume map a reader of the three arrays finds: \<open>n\<close> entries with \<^verbatim>\<open>from\<close> and
  \<^verbatim>\<open>to\<close> set, from slot \<open>i\<close> on, and then the null pointers that end the arrays.
  \<open>volumeMap c = Some es\<close>: the arrays of \<open>c\<close> hold the entries \<open>es\<close>, in this order,
  and are terminated.
\<close>

fun read_entries ::
    "block \<Rightarrow> block \<Rightarrow> block \<Rightarrow> nat \<Rightarrow> nat \<Rightarrow> (string \<times> string \<times> cptr) list option" where
  "read_entries F T G i 0 =
     (if cell F i = Some None \<and> cell T i = Some None \<and> cell G i = Some None then Some []
      else None)"
| "read_entries F T G i (Suc n) =
     (case (cell F i, cell T i, cell G i) of
        (Some (Some f), Some (Some t), Some g) \<Rightarrow>
          map_option ((#) (f, t, g)) (read_entries F T G (Suc i) n)
      | _ \<Rightarrow> None)"

definition volumeMap :: "SetupRootConfig \<Rightarrow> (string \<times> string \<times> cptr) list option" where
  "volumeMap c =
     (case (volumeMapFrom c, volumeMapTo c, volumeMapFlags c) of
        (None, None, None) \<Rightarrow> Some []
      | (Some F, Some T, Some G) \<Rightarrow> read_entries F T G 0 (volumeMapFrom_ptr c)
      | _ \<Rightarrow> None)"

text \<open>
  The size of a \<^verbatim>\<open>char *\<close> on LP64, and whether slot \<open>i\<close> of an array of them lies
  inside a block of the size that was asked for.
\<close>

definition sizeof_char_ptr :: nat where
  "sizeof_char_ptr = 8"

definition in_bounds :: "block \<Rightarrow> nat \<Rightarrow> bool" where
  "in_bounds b i \<longleftrightarrow> (i + 1) * sizeof_char_ptr \<le> bytes b"

text \<open>
  What holds of the configuration between two \<^verbatim>\<open>-v\<close> options: the capacity is still 0,
  the three positions are the number of entries, the arrays hold the entries, and the
  size last asked for is 10 bytes.
\<close>

definition vol_inv :: "SetupRootConfig \<Rightarrow> (string \<times> string \<times> cptr) list \<Rightarrow> bool" where
  "vol_inv c es \<longleftrightarrow>
     volumeMap_capacity c = 0 \<and> volumeMapFrom_ptr c = length es
     \<and> volumeMapTo_ptr c = length es \<and> volumeMapFlags_ptr c = length es
     \<and> volumeMap c = Some es
     \<and> (\<forall>b. volumeMapFrom c = Some b \<longrightarrow> bytes b = 10)"

text \<open>What \<^verbatim>\<open>_usage\<close> writes.\<close>

definition written_by_usage :: "string list" where
  "written_by_usage = (case usage 1 of Exit st out \<Rightarrow> out)"

subsection \<open>Example runs\<close>

text \<open>
  Collaborators that all succeed, on an image that needs a loop device; the same with a
  failing \<^verbatim>\<open>mountImageVFS\<close>; a command line that asks for ssh; an inherited
  environment.
\<close>

definition K_ok :: "unit collaborators" where
  "K_ok = \<lparr>parse_UdiRootConfig = (\<lambda>w. (0, w)),
           parse_ImageData = (\<lambda>ident img w. (0, img\<lparr>useLoopMount := 1\<rparr>, w)),
           mountImageLoop = (\<lambda>img w. (0, w)),
           mountImageVFS = (\<lambda>img u n w. (0, w)),
           setupImageSsh = (\<lambda>k u i w. (0, w)),
           startSshd = (\<lambda>w. (0, w)),
           setupUserMounts = (\<lambda>img f t g w. (0, w))\<rparr>"

definition K_vfs_fails :: "unit collaborators" where
  "K_vfs_fails = K_ok\<lparr>mountImageVFS := (\<lambda>img u n w. (1, w))\<rparr>"

definition argv_ssh :: "string list" where
  "argv_ssh = [''setupRoot'', ''-s'', ''key'', ''-u'', ''alice'', ''-U'', ''1000'', ''docker'',
               ''busybox:latest'']"

definition envp_untrusted :: env where
  "envp_untrusted = [(''LD_PRELOAD'', ''/tmp/x.so''), (''PATH'', ''/tmp'')]"

text \<open>Command lines: repeated \<^verbatim>\<open>-v\<close> options, a malformed one, and uids that are no numbers.\<close>

definition v_options :: "string list \<Rightarrow> string list" where
  "v_options xs = concat (map (\<lambda>x. [''-v'', x]) xs)"

definition argv_one_volume :: "string list" where
  "argv_one_volume = [''setupRoot'', ''-v'', ''a:b'', ''docker'', ''busybox:latest'']"

definition argv_three_volumes :: "string list" where
  "argv_three_volumes =
     [''setupRoot'', ''-v'', ''a:b'', ''-v'', ''c:d:ro'', ''-v'', ''e:f'', ''docker'',
      ''busybox:latest'']"

definition argv_malformed_volume :: "string list" where
  "argv_malformed_volume = [''setupRoot'', ''-v'', ''a'', ''docker'', ''busybox:latest'']"

text \<open>
  A \<^verbatim>\<open>-v\<close> argument whose \<^verbatim>\<open>to\<close> position is empty, and collaborators that all
  succeed, \<^verbatim>\<open>setupUserMounts\<close> writing down the first slot of each of the three arrays
  it is handed.
\<close>

definition argv_empty_to :: "string list" where
  "argv_empty_to = [''setupRoot'', ''-v'', ''a::ro'', ''docker'', ''busybox:latest'']"

definition first_slot :: "block option \<Rightarrow> cptr option" where
  "first_slot b = (case b of None \<Rightarrow> None | Some b \<Rightarrow> cell b 0)"

definition K_record :: "(cptr option \<times> cptr option \<times> cptr option) list collaborators" where
  "K_record = \<lparr>parse_UdiRootConfig = (\<lambda>w. (0, w)),
               parse_ImageData = (\<lambda>ident img w. (0, img\<lparr>useLoopMount := 1\<rparr>, w)),
               mountImageLoop = (\<lambda>img w. (0, w)),
               mountImageVFS = (\<lambda>img u n w. (0, w)),
               setupImageSsh = (\<lambda>k u i w. (0, w)),
               startSshd = (\<lambda>w. (0, w)),
               setupUserMounts =
                 (\<lambda>img f t g w. (0, w @ [(first_slot f, first_slot t, first_slot g)]))\<rparr>"

definition argv_signed_uid :: "string list" where
  "argv_signed_uid = [''setupRoot'', ''-s'', ''key'', ''-u'', ''alice'', ''-U'', ''+5'', ''docker'',
                      ''busybox:latest'']"

definition argv_word_uid :: "string list" where
  "argv_word_uid = [''setupRoot'', ''-s'', ''key'', ''-u'', ''alice'', ''-U'', ''alice'', ''docker'',
                    ''busybox:latest'']"

section \<open>Properties\<close>

subsection \<open>The sanitization filter\<close>

lemma keeps_permitted: "keeps c \<longleftrightarrow> c \<in> permitted"
  by (cases c) (simp add: keeps_def permitted_def isalnum_def isdigit_def isupper_def islower_def)

lemma filterString_loop_filter:
  "length w + length rptr < len \<Longrightarrow> filterString_loop len rptr w = w @ filter keeps rptr"
  by (induction rptr arbitrary: w) auto

lemma filterString_Some: "filterString (Some s) = Some (filter keeps s)"
  by (simp add: filterString_def filterString_loop_filter)

subsection \<open>The pipeline follows the state machine\<close>

lemma ranI:
  "environ q = environ p \<Longrightarrow> config q = config p \<Longrightarrow> trace q = trace p @ evs \<Longrightarrow>
   chain (next_stage img (config p)) (environ p) s evs \<Longrightarrow>
   st = (if snd (snd (last evs)) = Some 0 then 0 else 1) \<Longrightarrow>
   stderr q = stderr p @ (if snd (snd (last evs)) = Some 0 then []
                          else [diagnostic (fst (last evs)) (config p)]) \<Longrightarrow>
   ran img s p (st, q)"
  unfolding ran_def by auto

lemma ran_fail:
  "rc \<noteq> 0 \<Longrightarrow> msg = diagnostic s (config p) \<Longrightarrow>
   ran img s p (fail msg ((called s (Some rc) p)\<lparr>world := w\<rparr>))"
  unfolding fail_def
  by (rule ranI [where evs = "[(s, environ p, Some rc)]"]) (simp_all add: called_def)

lemma ran_done:
  "next_stage img (config p) s = None \<Longrightarrow>
   ran img s p (0, (called s (Some 0) p)\<lparr>world := w\<rparr>)"
  by (rule ranI [where evs = "[(s, environ p, Some 0)]"]) (simp_all add: called_def)

lemma ran_step:
  assumes "next_stage img (config p) s = Some s2"
    and "ran img s2 ((called s (Some 0) p)\<lparr>world := w\<rparr>) r"
  shows "ran img s p r"
proof -
  obtain st q where r: "r = (st, q)" by (cases r)
  from assms(2) obtain evs where
    e: "environ q = environ p" "config q = config p"
       "trace q = trace p @ (s, environ p, Some 0) # evs"
       "chain (next_stage img (config p)) (environ p) s2 evs"
       "st = (if snd (snd (last evs)) = Some 0 then 0 else 1)"
       "stderr q = stderr p @ (if snd (snd (last evs)) = Some 0 then []
                          else [diagnostic (fst (last evs)) (config p)])"
    unfolding ran_def r by (auto simp: called_def)
  from e(4) have ne: "evs \<noteq> []" by (cases evs) auto
  show ?thesis
    unfolding r
    by (rule ranI [where evs = "(s, environ p, Some 0) # evs"])
       (use e ne assms(1) in simp_all)
qed

lemma ran_user_mounts: "ran img Step_setupUserMounts p (main_user_mounts K p)"
proof -
  obtain rc w where c: "setupUserMounts K (image p) (volumeMapFrom (config p))
                      (volumeMapTo (config p)) (volumeMapFlags (config p)) (world p) = (rc, w)"
    by (cases "setupUserMounts K (image p) (volumeMapFrom (config p))
                      (volumeMapTo (config p)) (volumeMapFlags (config p)) (world p)")
  show ?thesis
  proof (cases "rc = 0")
    case True
    with c have "main_user_mounts K p = (0, (called Step_setupUserMounts (Some 0) p)\<lparr>world := w\<rparr>)"
      by (simp add: main_user_mounts_def)
    then show ?thesis using ran_done [of img p Step_setupUserMounts w] by simp
  next
    case False
    with c have "main_user_mounts K p = fail (diagnostic Step_setupUserMounts (config p))
        ((called Step_setupUserMounts (Some rc) p)\<lparr>world := w\<rparr>)"
      by (simp add: main_user_mounts_def)
    then show ?thesis using ran_fail [OF False refl, of img Step_setupUserMounts p w] by simp
  qed
qed

lemma ssh_gate_iff:
  "ssh_gate c \<longleftrightarrow>
     (case sshPubKey c of
        None \<Rightarrow> False
      | Some key \<Rightarrow>
          strlen key > 0
          \<and> (case user c of None \<Rightarrow> False | Some u \<Rightarrow> strlen u > 0 \<and> uid c \<noteq> 0))"
  by (auto simp: ssh_gate_def strlen_def split: option.splits)

lemma ran_ssh:
  "ran img (if ssh_gate (config p) then Step_setupImageSsh else Step_setupUserMounts) p
     (main_ssh K p)"
proof (cases "ssh_gate (config p)")
  case False
  then have "main_ssh K p = main_user_mounts K p"
    by (simp add: main_ssh_def ssh_gate_iff)
  with False ran_user_mounts [of img p K] show ?thesis by simp
next
  case True
  note gate = True [unfolded ssh_gate_iff]
  obtain rc w where ssh: "setupImageSsh K (sshPubKey (config p)) (user (config p))
                        (uid (config p)) (world p) = (rc, w)"
    by (cases "setupImageSsh K (sshPubKey (config p)) (user (config p))
                        (uid (config p)) (world p)")
  define p1 where "p1 = (called Step_setupImageSsh (Some rc) p)\<lparr>world := w\<rparr>"
  have c1: "config p1 = config p" by (simp add: p1_def called_def)
  show ?thesis
  proof (cases "rc = 0")
    case False
    then have "main_ssh K p = fail (diagnostic Step_setupImageSsh (config p)) p1"
      using gate ssh by (simp add: main_ssh_def p1_def)
    then show ?thesis using True ran_fail [OF False refl, of img Step_setupImageSsh p w]
      by (simp add: p1_def)
  next
    case rc0: True
    obtain rc2 w2 where sshd: "startSshd K (world p1) = (rc2, w2)"
      by (cases "startSshd K (world p1)")
    define p2 where "p2 = (called Step_startSshd (Some rc2) p1)\<lparr>world := w2\<rparr>"
    have "ran img Step_startSshd p1 (main_ssh K p)"
    proof (cases "rc2 = 0")
      case False
      then have "main_ssh K p = fail (diagnostic Step_startSshd (config p1)) p2"
        using gate ssh sshd rc0 by (simp add: main_ssh_def p1_def p2_def)
      then show ?thesis using ran_fail [OF False refl, of img Step_startSshd p1 w2]
        by (simp add: p2_def)
    next
      case rc20: True
      then have eq: "main_ssh K p = main_user_mounts K p2"
        using gate ssh sshd rc0 by (simp add: main_ssh_def p1_def p2_def)
      have "ran img Step_setupUserMounts p2 (main_user_mounts K p2)"
        by (rule ran_user_mounts)
      then show ?thesis
        unfolding p2_def rc20 eq by (rule ran_step [rotated]) simp
    qed
    then have "ran img Step_setupImageSsh p (main_ssh K p)"
      unfolding p1_def rc0 by (rule ran_step [rotated]) simp
    then show ?thesis using True by simp
  qed
qed

lemma ran_vfs: "ran img Step_mountImageVFS p (main_vfs K p)"
proof -
  obtain rc w where c: "mountImageVFS K (image p) (user (config p)) (minNodeSpec (config p))
                      (world p) = (rc, w)"
    by (cases "mountImageVFS K (image p) (user (config p)) (minNodeSpec (config p)) (world p)")
  define p1 where "p1 = (called Step_mountImageVFS (Some rc) p)\<lparr>world := w\<rparr>"
  have c1: "config p1 = config p" by (simp add: p1_def called_def)
  show ?thesis
  proof (cases "rc = 0")
    case False
    with c have "main_vfs K p = fail (diagnostic Step_mountImageVFS (config p)) p1"
      by (simp add: main_vfs_def p1_def)
    then show ?thesis using ran_fail [OF False refl, of img Step_mountImageVFS p w]
      by (simp add: p1_def)
  next
    case True
    with c have eq: "main_vfs K p = main_ssh K p1"
      by (simp add: main_vfs_def p1_def)
    have "ran img (if ssh_gate (config p1) then Step_setupImageSsh else Step_setupUserMounts) p1
            (main_ssh K p1)"
      by (rule ran_ssh)
    then show ?thesis
      unfolding eq p1_def True by (rule ran_step [rotated]) (simp add: called_def)
  qed
qed

lemma image_user_mounts: "image (snd (main_user_mounts K p)) = image p"
  by (simp add: main_user_mounts_def called_def fail_def Let_def split: prod.split)

lemma image_ssh: "image (snd (main_ssh K p)) = image p"
  by (simp add: main_ssh_def image_user_mounts called_def fail_def Let_def split: prod.split)

lemma image_vfs: "image (snd (main_vfs K p)) = image p"
  by (simp add: main_vfs_def image_ssh called_def fail_def Let_def split: prod.split)

lemma ran_pipeline:
  "ran (image (snd (main_pipeline K p))) Step_parse_UdiRootConfig p (main_pipeline K p)"
proof -
  obtain rc w where c: "parse_UdiRootConfig K (world p) = (rc, w)"
    by (cases "parse_UdiRootConfig K (world p)")
  define p1 where "p1 = (called Step_parse_UdiRootConfig (Some rc) p)\<lparr>world := w\<rparr>"
  have c1: "config p1 = config p" by (simp add: p1_def called_def)
  show ?thesis
  proof (cases "rc = 0")
    case False
    with c have "main_pipeline K p = fail (diagnostic Step_parse_UdiRootConfig (config p)) p1"
      by (simp add: main_pipeline_def p1_def)
    then show ?thesis
      using ran_fail [OF False refl, of _ Step_parse_UdiRootConfig p w]
      by (simp add: p1_def)
  next
    case rc0: True
    obtain rc2 img w2 where g: "getImage K (image p1) (config p1) (world p1) = (rc2, img, w2)"
      by (cases "getImage K (image p1) (config p1) (world p1)")
    define p2 where "p2 = (called Step_getImage (Some rc2) p1)\<lparr>image := img, world := w2\<rparr>"
    have c2: "config p2 = config p1" "image p2 = img" by (simp_all add: p2_def called_def)
    have "ran (image (snd (main_pipeline K p))) Step_getImage p1 (main_pipeline K p)"
    proof (cases "rc2 = 0")
      case False
      with c g rc0 have fl: "main_pipeline K p = fail (diagnostic Step_getImage (config p1)) p2"
        by (simp add: main_pipeline_def p1_def p2_def called_def)
      have "ran img' Step_getImage p1 (fail (diagnostic Step_getImage (config p1)) p2)" for img'
        unfolding fail_def p2_def
        by (rule ranI [where evs = "[(Step_getImage, environ p1, Some rc2)]"])
           (use False in \<open>simp_all add: called_def\<close>)
      then show ?thesis unfolding fl .
    next
      case rc20: True
      show ?thesis
      proof (cases "useLoopMount img = 0")
        case True
        with c g rc0 rc20 have eq: "main_pipeline K p = main_vfs K p2"
          by (simp add: main_pipeline_def p1_def p2_def called_def)
        have img: "image (snd (main_pipeline K p)) = img"
          by (simp add: eq image_vfs c2)
        have "ran img Step_mountImageVFS p2 (main_vfs K p2)" by (rule ran_vfs)
        then obtain st q evs where r: "main_vfs K p2 = (st, q)" and
          e: "environ q = environ p1" "config q = config p1"
             "trace q = trace p1 @ (Step_getImage, environ p1, Some 0) # evs"
             "chain (next_stage img (config p1)) (environ p1) Step_mountImageVFS evs"
             "st = (if snd (snd (last evs)) = Some 0 then 0 else 1)"
             "stderr q = stderr p1 @ (if snd (snd (last evs)) = Some 0 then []
                          else [diagnostic (fst (last evs)) (config p1)])"
          unfolding ran_def p2_def rc20 by (cases "main_vfs K p2") (auto simp: called_def)
        from e(4) have ne: "evs \<noteq> []" by (cases evs) auto
        show ?thesis
          unfolding img unfolding eq r
          by (rule ranI [where evs = "(Step_getImage, environ p1, Some 0) # evs"])
             (use e ne True in simp_all)
      next
        case False
        obtain rc3 w3 where l: "mountImageLoop K (image p2) (world p2) = (rc3, w3)"
          by (cases "mountImageLoop K (image p2) (world p2)")
        define p3 where "p3 = (called Step_mountImageLoop (Some rc3) p2)\<lparr>world := w3\<rparr>"
        have c3: "config p3 = config p1" "image p3 = img" "environ p2 = environ p1"
          by (simp_all add: p3_def p2_def called_def)
        have main: "main_pipeline K p =
            (if rc3 \<noteq> 0 then fail (diagnostic Step_mountImageLoop (config p1)) p3
             else main_vfs K p3)"
          using c g rc0 rc20 False l
          by (simp add: main_pipeline_def p1_def p2_def p3_def called_def)
        have img: "image (snd (main_pipeline K p)) = img"
          by (simp add: main image_vfs c3 fail_def)
        have "ran img Step_mountImageLoop p2 (main_pipeline K p)"
        proof (cases "rc3 = 0")
          case True
          have "ran img Step_mountImageVFS p3 (main_vfs K p3)" by (rule ran_vfs)
          then have "ran img Step_mountImageLoop p2 (main_vfs K p3)"
            unfolding p3_def True by (rule ran_step [rotated]) simp
          then show ?thesis by (simp add: main True)
        next
          case False
          then show ?thesis
            using ran_fail [OF False refl, of img Step_mountImageLoop p2 w3]
            by (simp add: main p3_def c2)
        qed
        then obtain st q evs where r: "main_pipeline K p = (st, q)" and
          e: "environ q = environ p1" "config q = config p1"
             "trace q = trace p1 @ (Step_getImage, environ p1, Some 0) # evs"
             "chain (next_stage img (config p1)) (environ p1) Step_mountImageLoop evs"
             "st = (if snd (snd (last evs)) = Some 0 then 0 else 1)"
             "stderr q = stderr p1 @ (if snd (snd (last evs)) = Some 0 then []
                          else [diagnostic (fst (last evs)) (config p1)])"
          unfolding ran_def p2_def rc20 by (cases "main_pipeline K p") (auto simp: called_def)
        from e(4) have ne: "evs \<noteq> []" by (cases evs) auto
        show ?thesis
          unfolding img unfolding r
          by (rule ranI [where evs = "(Step_getImage, environ p1, Some 0) # evs"])
             (use e ne False in simp_all)
      qed
    qed
    then show ?thesis
      unfolding p1_def rc0 by (rule ran_step [rotated]) simp
  qed
qed

lemma case_v_exit:
  "case_v optarg c = Inl e \<Longrightarrow> e = Exit 1 [''ERROR: invalid format for volume map!'']"
  unfolding case_v_def usage_def fprintf_stderr_def
  by (simp split: prod.splits if_splits add: Let_def)

lemma switch_opt_exit:
  "switch_opt r c = Inl e \<Longrightarrow> \<exists>m \<in> parse_diagnostics. e = Exit 1 [m]"
  by (cases r) (auto simp: parse_diagnostics_def usage_def fprintf_stderr_def
                     dest: case_v_exit split: if_splits)

lemma parse_loop_exit:
  "parse_loop st c = Inl e \<Longrightarrow> \<exists>m \<in> parse_diagnostics. e = Exit 1 [m]"
proof (induction st c rule: parse_loop.induct)
  case (1 st config)
  obtain r st' where g: "getopt optstring st = (r, st')"
    by (cases "getopt optstring st")
  show ?case
  proof (cases "r = End")
    case True
    with g "1.prems" show ?thesis by (simp add: parse_loop.simps [of st])
  next
    case False
    show ?thesis
    proof (cases "switch_opt r config")
      case (Inl e')
      with g False "1.prems" have "e = e'"
        by (simp add: parse_loop.simps [of st])
      with Inl switch_opt_exit show ?thesis by blast
    next
      case (Inr c')
      with g False "1.prems" have "parse_loop st' c' = Inl e"
        by (simp add: parse_loop.simps [of st])
      with "1.IH" [OF refl g [symmetric] False Inr] show ?thesis .
    qed
  qed
qed

lemma parse_SetupRootConfig_exit:
  "parse_SetupRootConfig argv c = Inl e \<Longrightarrow> \<exists>m \<in> parse_diagnostics. e = Exit 1 [m]"
  unfolding parse_SetupRootConfig_def
  by (auto simp: Let_def parse_diagnostics_def usage_def fprintf_stderr_def
           split: sum.splits prod.splits if_splits dest!: parse_loop_exit)

lemma parse_SetupRootConfig_returns:
  "parse_SetupRootConfig argv c = Inr (rc, cfg) \<Longrightarrow> rc = 0"
  unfolding parse_SetupRootConfig_def
  by (auto simp: Let_def split: sum.splits prod.splits if_splits)

lemma main_run:
  assumes "main K argv envp w = (st, p)"
  shows "environ p = trusted_env \<and>
    ((\<exists>m \<in> parse_diagnostics. parse_SetupRootConfig argv zero_SetupRootConfig = Inl (Exit 1 [m])
        \<and> st = 1 \<and> stderr p = [m] \<and> trace p = prologue envp None
        \<and> config p = zero_SetupRootConfig)
     \<or> (parse_SetupRootConfig argv zero_SetupRootConfig = Inr (0, config p)
        \<and> (\<exists>evs. trace p = prologue envp (Some 0) @ evs
              \<and> chain (next_stage (image p) (config p)) trusted_env Step_parse_UdiRootConfig evs
              \<and> st = (if snd (snd (last evs)) = Some 0 then 0 else 1)
              \<and> stderr p = (if snd (snd (last evs)) = Some 0 then []
                            else [diagnostic (fst (last evs)) (config p)]))))"
proof (cases "parse_SetupRootConfig argv zero_SetupRootConfig")
  case (Inl e)
  from parse_SetupRootConfig_exit [OF Inl] obtain m where
    m: "m \<in> parse_diagnostics" "e = Exit 1 [m]" by blast
  with Inl assms show ?thesis
    by (auto simp: main_def Let_def called_def clearenv_def trusted_env_def prologue_def)
next
  case (Inr a)
  obtain rc cfg where a: "a = (rc, cfg)" by (cases a)
  with Inr parse_SetupRootConfig_returns have rc: "rc = 0" by blast
  define p0 where "p0 = \<lparr>environ = trusted_env, stderr = [],
      trace = prologue envp (Some 0), world = w, config = cfg, image = zero_ImageData\<rparr>"
  from Inr a rc have eq: "main K argv envp w = main_pipeline K p0"
    by (simp add: main_def Let_def called_def clearenv_def trusted_env_def prologue_def p0_def)
  have "ran (image (snd (main_pipeline K p0))) Step_parse_UdiRootConfig p0 (main_pipeline K p0)"
    by (rule ran_pipeline)
  with assms eq Inr a rc show ?thesis
    by (auto simp: ran_def p0_def)
qed

lemma chain_unfold:
  "chain nxt E s evs \<longleftrightarrow>
     (\<exists>rc es. evs = (s, E, Some rc) # es \<and>
        (if rc \<noteq> 0 then es = []
         else (case nxt s of None \<Rightarrow> es = [] | Some s2 \<Rightarrow> chain nxt E s2 es)))"
proof (cases evs)
  case Nil
  then show ?thesis by simp
next
  case (Cons e es)
  obtain s' E' r where e: "e = (s', E', r)" by (cases e)
  show ?thesis
    unfolding Cons e by (cases r) simp_all
qed

lemma never_before_Nil: "never_before b a []"
  by (simp add: never_before_def)

lemma never_before_Cons:
  "never_before b a (e # tr) \<longleftrightarrow>
     fst e \<noteq> b \<and> ((fst e = a \<and> snd (snd e) = Some 0) \<or> never_before b a tr)"
proof (cases "fst e = a \<and> snd (snd e) = Some 0")
  case True
  have "never_before b a (e # tr) \<longleftrightarrow> fst e \<noteq> b"
  proof
    assume "never_before b a (e # tr)"
    from this [unfolded never_before_def, rule_format, of 0] show "fst e \<noteq> b" by auto
  next
    assume ne: "fst e \<noteq> b"
    show "never_before b a (e # tr)"
      unfolding never_before_def
    proof (intro allI impI)
      fix i assume "i < length (e # tr)" "fst ((e # tr) ! i) = b"
      with ne have "0 < i" by (cases i) auto
      with True show "\<exists>j<i. fst ((e # tr) ! j) = a \<and> snd (snd ((e # tr) ! j)) = Some 0"
        by (intro exI [of _ 0]) simp
    qed
  qed
  with True show ?thesis by simp
next
  case False
  have "never_before b a (e # tr) \<longleftrightarrow> fst e \<noteq> b \<and> never_before b a tr"
  proof (intro iffI conjI)
    assume nb: "never_before b a (e # tr)"
    from nb [unfolded never_before_def, rule_format, of 0] show "fst e \<noteq> b" by auto
    show "never_before b a tr"
      unfolding never_before_def
    proof (intro allI impI)
      fix i assume i: "i < length tr" "fst (tr ! i) = b"
      with nb [unfolded never_before_def, rule_format, of "Suc i"]
      obtain j where j: "j < Suc i" "fst ((e # tr) ! j) = a" "snd (snd ((e # tr) ! j)) = Some 0"
        by auto
      with False obtain j' where "j = Suc j'" by (cases j) auto
      with j show "\<exists>j<i. fst (tr ! j) = a \<and> snd (snd (tr ! j)) = Some 0"
        by (intro exI [of _ j']) simp
    qed
  next
    assume a: "fst e \<noteq> b \<and> never_before b a tr"
    show "never_before b a (e # tr)"
      unfolding never_before_def
    proof (intro allI impI)
      fix i assume i: "i < length (e # tr)" "fst ((e # tr) ! i) = b"
      with a obtain i' where i': "i = Suc i'" by (cases i) auto
      with i a [THEN conjunct2, unfolded never_before_def, rule_format, of i']
      obtain j where "j < i'" "fst (tr ! j) = a" "snd (snd (tr ! j)) = Some 0" by auto
      with i' show "\<exists>j<i. fst ((e # tr) ! j) = a \<and> snd (snd ((e # tr) ! j)) = Some 0"
        by (intro exI [of _ "Suc j"]) simp
    qed
  qed
  with False show ?thesis by blast
qed

lemma chainE:
  assumes "chain nxt E s evs"
  obtains rc where "rc \<noteq> 0" "evs = [(s, E, Some rc)]"
    | "nxt s = None" "evs = [(s, E, Some 0)]"
    | s2 es where "nxt s = Some s2" "evs = (s, E, Some 0) # es" "chain nxt E s2 es"
proof -
  from assms obtain rc es where e: "evs = (s, E, Some rc) # es"
    and r: "if rc \<noteq> 0 then es = []
         else (case nxt s of None \<Rightarrow> es = [] | Some s2 \<Rightarrow> chain nxt E s2 es)"
    unfolding chain_unfold [of nxt E s evs] by blast
  show thesis
  proof (cases "rc = 0")
    case False
    with e r that(1) show thesis by simp
  next
    case True
    show thesis
    proof (cases "nxt s")
      case None
      with e r True that(2) show thesis by simp
    next
      case (Some s2)
      with e r True that(3) show thesis by simp
    qed
  qed
qed

lemma chain_facts:
  assumes "chain (next_stage img c) E Step_parse_UdiRootConfig evs"
  shows "invoked Step_mountImageLoop (prologue envp r @ evs) \<longleftrightarrow> 
            succeeded Step_getImage (prologue envp r @ evs) \<and> useLoopMount img \<noteq> 0"
    and "never_before Step_mountImageVFS Step_getImage (prologue envp r @ evs)"
    and "never_before Step_setupUserMounts Step_mountImageVFS (prologue envp r @ evs)"
    and "invoked Step_setupImageSsh (prologue envp r @ evs) \<longleftrightarrow> 
            succeeded Step_mountImageVFS (prologue envp r @ evs) \<and> ssh_gate c"
    and "(\<exists>e \<in> set evs. fst e = Step_mountImageVFS \<and> snd (snd e) \<noteq> Some 0) \<longrightarrow>
          \<not> invoked Step_setupImageSsh (prologue envp r @ evs) \<and>
          \<not> invoked Step_startSshd (prologue envp r @ evs) \<and>
          \<not> invoked Step_setupUserMounts (prologue envp r @ evs)"
  using assms
      apply (erule_tac chainE; simp add: invoked_def succeeded_def prologue_def never_before_Nil never_before_Cons split: if_splits)+
  done

lemma chain_generic:
  assumes "chain nxt E s evs"
  shows "evs \<noteq> []" 
    and "\<forall>e \<in> set (butlast evs). snd (snd e) = Some 0"
    and "\<exists>rc. snd (snd (last evs)) = Some rc"
    and "\<forall>e \<in> set evs. fst (snd e) = E"
  using assms
proof (induction evs arbitrary: s)
  case Nil
  {
    case 1 then show ?case by simp
  next
    case 2 then show ?case by simp
  next
    case 3 then show ?case by simp
  next
    case 4 then show ?case by simp
  }
next
  case (Cons e es)
  {
    case 1 then show ?case by simp
  next
    case 2
    then show ?case
      using Cons.IH(2) Cons.IH(1) 
      by (cases e) (auto split: option.splits if_splits)
  next
    case 3
    then show ?case
      using Cons.IH(3) Cons.IH(1)
      by (cases e) (auto split: option.splits if_splits)
  next
    case 4
    then show ?case
      using Cons.IH(4)
      by (cases e) (auto split: option.splits if_splits)
  }
qed

lemma chain_stages:
  assumes "chain (next_stage img c) E Step_parse_UdiRootConfig evs"
  shows "\<forall>e \<in> set evs. fst e \<noteq> Step_clearenv \<and> fst e \<noteq> Step_setenv
           \<and> fst e \<noteq> Step_parse_SetupRootConfig"
  using assms
  apply (erule_tac chainE; simp split: if_splits)+
  done

lemma diagnostics_disjoint:
  "s \<noteq> s' \<Longrightarrow> diagnostics s c \<inter> diagnostics s' c' = {}"
  by (cases s; cases s') (simp_all add: diagnostics_def parse_diagnostics_def)

lemmas main_eval = main_def main_pipeline_def main_vfs_def main_ssh_def main_user_mounts_def
  getImage_def called_def fail_def clearenv_def usage_def fprintf_stderr_def
  zero_ImageData_def strlen_def percent_s_def

lemmas parse_eval = parse_SetupRootConfig_def parse_loop.simps getopt_def getopt_short_def
  NONOPTION_P_def optstring_def case_v_def strtok_def realloc_def store_def
  VOLUME_ALLOC_BLOCK_def zero_SetupRootConfig_def argv_at_def filterString_def keeps_def
  isalnum_def isdigit_def isupper_def islower_def isspace_def strtoul_def strtoul_subject_def
  ULONG_MAX_def

lemmas run_eval = main_eval parse_eval K_ok_def K_vfs_fails_def argv_ssh_def envp_untrusted_def Let_def

lemma last_only_fails:
  assumes "\<forall>e \<in> set (butlast tr). ret e = Some 0" "i < length tr" "ret (tr ! i) \<noteq> Some 0"
  shows "Suc i = length tr"
proof (rule ccontr)
  assume "Suc i \<noteq> length tr"
  with assms(2) have "i < length (butlast tr)" by simp
  then have "butlast tr ! i \<in> set (butlast tr)" by (rule nth_mem)
  moreover have "butlast tr ! i = tr ! i" using \<open>i < length (butlast tr)\<close> by (rule nth_butlast)
  ultimately show False using assms(1,3) by auto
qed

subsection \<open>The parser\<close>

lemma split_colon_unfold:
  "split_colon s =
     takeWhile (\<lambda>c. c \<noteq> CHR '':'') s
       # (case dropWhile (\<lambda>c. c \<noteq> CHR '':'') s of [] \<Rightarrow> [] | d # r \<Rightarrow> split_colon r)"
  by (induction s) auto

lemma fields_dropWhile: "fields (dropWhile (\<lambda>c. c = CHR '':'') s) = fields s"
  by (induction s) (auto simp: fields_def)

lemma fields_Nil: "fields [] = []"
  by (simp add: fields_def)

lemma fields_token:
  assumes "s \<noteq> []" "hd s \<noteq> CHR '':''"
  shows "fields s = takeWhile (\<lambda>c. c \<noteq> CHR '':'') s
                      # fields (drop 1 (dropWhile (\<lambda>c. c \<noteq> CHR '':'') s))"
proof -
  define d where "d = dropWhile (\<lambda>c. c \<noteq> CHR '':'') s"
  define X where "X = (case d of [] \<Rightarrow> [] | c # r \<Rightarrow> split_colon r)"
  from assms have ne: "takeWhile (\<lambda>c. c \<noteq> CHR '':'') s \<noteq> []"
    by (cases s) simp_all
  have "split_colon s = takeWhile (\<lambda>c. c \<noteq> CHR '':'') s # X"
    unfolding X_def d_def by (rule split_colon_unfold)
  then have "fields s = takeWhile (\<lambda>c. c \<noteq> CHR '':'') s # filter (\<lambda>f. f \<noteq> []) X"
    using ne by (simp add: fields_def)
  moreover have "filter (\<lambda>f. f \<noteq> []) X = fields (drop 1 d)"
    unfolding X_def by (cases d) (simp_all add: fields_def)
  ultimately show ?thesis by (simp add: d_def)
qed

lemma strtok_fields:
  "fst (strtok s '':'') = (case fields s of [] \<Rightarrow> None | f # fs \<Rightarrow> Some f)
   \<and> fields (snd (strtok s '':'')) = drop 1 (fields s)"
proof -
  define s1 where "s1 = dropWhile (\<lambda>c. c = CHR '':'') s"
  have f1: "fields s1 = fields s" unfolding s1_def by (rule fields_dropWhile)
  show ?thesis
  proof (cases "s1 = []")
    case True
    with f1 have "fields s = []" by (simp add: fields_Nil)
    with True show ?thesis by (simp add: strtok_def s1_def fields_Nil)
  next
    case False
    then have "hd s1 \<noteq> CHR '':''"
      unfolding s1_def by (metis (mono_tags, lifting) hd_dropWhile)
    from fields_token [OF False this] f1
    have "fields s = takeWhile (\<lambda>c. c \<noteq> CHR '':'') s1
                      # fields (drop 1 (dropWhile (\<lambda>c. c \<noteq> CHR '':'') s1))" by simp
    with False show ?thesis by (simp add: strtok_def s1_def Let_def)
  qed
qed

lemma strtok_field0: "fst (strtok s '':'') = field s 0"
  using strtok_fields [of s] by (cases "fields s") (simp_all add: field_def)

lemma strtok_field1: "fst (strtok (snd (strtok s '':'')) '':'') = field s 1"
  using strtok_fields [of "snd (strtok s '':'')"] strtok_fields [of s]
  by (cases "fields s"; cases "tl (fields s)") (simp_all add: field_def drop_Suc)

lemma strtok_field2:
  "fst (strtok (snd (strtok (snd (strtok s '':'')) '':'')) '':'') = field s 2"
  using strtok_fields [of "snd (strtok (snd (strtok s '':'')) '':'')"]
    strtok_fields [of "snd (strtok s '':'')"] strtok_fields [of s]
  by (cases "fields s"; cases "tl (fields s)"; cases "tl (tl (fields s))")
     (simp_all add: field_def drop_Suc)

lemma case_v_fields:
  "case_v x c =
     (if field x 0 = None \<or> field x 1 = None
      then Inl (Exit 1 [''ERROR: invalid format for volume map!''])
      else
        let cnt = volumeMapFrom_ptr c;
            c1 = (if volumeMapFrom c = None \<or> cnt + 2 \<ge> volumeMap_capacity c
                  then c\<lparr>volumeMapFrom := realloc (volumeMapFrom c)
                                             (volumeMap_capacity c + VOLUME_ALLOC_BLOCK),
                         volumeMapTo := realloc (volumeMapTo c)
                                             (volumeMap_capacity c + VOLUME_ALLOC_BLOCK),
                         volumeMapFlags := realloc (volumeMapFlags c)
                                             (volumeMap_capacity c + VOLUME_ALLOC_BLOCK),
                         volumeMapFrom_ptr := cnt, volumeMapTo_ptr := cnt,
                         volumeMapFlags_ptr := cnt\<rparr>
                  else c)
        in Inr (c1\<lparr>
             volumeMapFrom := store (store (volumeMapFrom c1) (volumeMapFrom_ptr c1) (field x 0))
                                (volumeMapFrom_ptr c1 + 1) None,
             volumeMapTo := store (store (volumeMapTo c1) (volumeMapTo_ptr c1) (field x 1))
                                (volumeMapTo_ptr c1 + 1) None,
             volumeMapFlags := store (store (volumeMapFlags c1) (volumeMapFlags_ptr c1) (field x 2))
                                (volumeMapFlags_ptr c1 + 1) None,
             volumeMapFrom_ptr := volumeMapFrom_ptr c1 + 1,
             volumeMapTo_ptr := volumeMapTo_ptr c1 + 1,
             volumeMapFlags_ptr := volumeMapFlags_ptr c1 + 1\<rparr>))"
  apply (simp only: case_v_def Let_def case_prod_beta)
  apply (simp only: strtok_field2)
  apply (simp only: strtok_field1)
  apply (simp only: strtok_field0)
  apply (simp add: Let_def usage_def fprintf_stderr_def)
  done

lemma case_v_malformed:
  assumes "length (fields x) < 2"
  shows "case_v x c = Inl (Exit 1 [''ERROR: invalid format for volume map!''])"
proof -
  from assms have "field x 1 = None" by (simp add: field_def)
  then show ?thesis by (simp add: case_v_fields)
qed

lemma case_v_wellformed:
  assumes "2 \<le> length (fields x)"
  shows "\<exists>c'. case_v x c = Inr c'"
proof -
  from assms have "field x 0 \<noteq> None" "field x 1 \<noteq> None" by (auto simp: field_def)
  then show ?thesis
    by (simp add: case_v_fields Let_def)
qed

lemma parse_loop_malformed_volume:
  assumes "getopt optstring st = (Arg CHR ''v'' x, st')" "length (fields x) < 2"
  shows "parse_loop st c = Inl (Exit 1 [''ERROR: invalid format for volume map!''])"
  using assms by (simp add: parse_loop.simps [of st] case_v_malformed)

lemma getopt_first_v:
  "getopt optstring \<lparr>nextchar = [], pending = ''-v'' # x # rest, skipped = []\<rparr>
     = (Arg CHR ''v'' x, \<lparr>nextchar = [], pending = rest, skipped = []\<rparr>)"
  by (simp add: getopt_def getopt_short_def NONOPTION_P_def optstring_def)

lemma parse_malformed_volume:
  assumes "length (fields x) < 2"
  shows "parse_SetupRootConfig (prog # ''-v'' # x # rest) c
           = Inl (Exit 1 [''ERROR: invalid format for volume map!''])"
  using parse_loop_malformed_volume [OF getopt_first_v assms]
  by (simp add: parse_SetupRootConfig_def)

lemma main_parse_exit:
  assumes "parse_SetupRootConfig argv zero_SetupRootConfig = Inl (Exit st out)"
  shows "main K argv envp w =
     (st, \<lparr>environ = trusted_env, stderr = out, trace = prologue envp None, world = w,
           config = zero_SetupRootConfig, image = zero_ImageData\<rparr>)"
  using assms
  by (simp add: main_def Let_def called_def clearenv_def trusted_env_def prologue_def)

lemma getopt_advance_nonoptions:
  "\<forall>a \<in> set args. NONOPTION_P a \<Longrightarrow>
   getopt_advance os sk args = (End, \<lparr>nextchar = [], pending = [], skipped = sk @ args\<rparr>)"
  by (induction args arbitrary: sk) simp_all

lemma parse_loop_nonoptions:
  assumes "\<forall>a \<in> set args. NONOPTION_P a"
  shows "parse_loop \<lparr>nextchar = [], pending = args, skipped = sk\<rparr> c = Inr (c, sk @ args)"
  using getopt_advance_nonoptions [OF assms]
  by (simp add: parse_loop.simps getopt_def)

lemma parse_after_loop:
  assumes "parse_loop \<lparr>nextchar = [], pending = drop 1 argv, skipped = []\<rparr> c = Inr (c', rest)"
  shows "length rest \<noteq> 2 \<longrightarrow>
           parse_SetupRootConfig argv c
             = Inl (Exit 1 [''Must specify image type and image identifier\<newline>''])"
    and "rest = [a, b] \<longrightarrow>
           parse_SetupRootConfig argv c
             = Inr (0, c'\<lparr>imageType := filterString (Some a),
                          imageIdentifier := filterString (Some b)\<rparr>)"
proof -
  have empty: "argv = [] \<Longrightarrow> rest = []"
    using assms by (simp add: parse_loop.simps getopt_def)
  show "length rest \<noteq> 2 \<longrightarrow>
           parse_SetupRootConfig argv c
             = Inl (Exit 1 [''Must specify image type and image identifier\<newline>''])"
    using assms
    by (simp add: parse_SetupRootConfig_def Let_def usage_def fprintf_stderr_def)
  show "rest = [a, b] \<longrightarrow>
           parse_SetupRootConfig argv c
             = Inr (0, c'\<lparr>imageType := filterString (Some a),
                          imageIdentifier := filterString (Some b)\<rparr>)"
    using assms empty
    by (auto simp: parse_SetupRootConfig_def Let_def argv_at_def)
qed

lemma parse_missing_argument:
  assumes "o' \<in> set ''vsuUN''"
  shows "parse_SetupRootConfig [prog, [CHR ''-'', o']] c
           = Inl (Exit 1 [''Missing an argument!\<newline>''])"
  using assms
  by (auto simp: parse_SetupRootConfig_def parse_loop.simps getopt_def getopt_short_def
        NONOPTION_P_def optstring_def usage_def fprintf_stderr_def)

lemma read_entries_store:
  assumes "read_entries F T G i n = Some es"
    and "cell F' = (cell F)(i + n := Some (Some f), Suc (i + n) := Some None)"
    and "cell T' = (cell T)(i + n := Some (Some t), Suc (i + n) := Some None)"
    and "cell G' = (cell G)(i + n := Some g, Suc (i + n) := Some None)"
  shows "read_entries F' T' G' i (Suc n) = Some (es @ [(f, t, g)])"
  using assms
proof (induction n arbitrary: i es)
  case 0
  then show ?case by (simp split: if_splits)
next
  case (Suc n)
  from Suc.prems(1) obtain f0 t0 g0 es' where
    c: "cell F i = Some (Some f0)" "cell T i = Some (Some t0)" "cell G i = Some g0"
    and r: "read_entries F T G (Suc i) n = Some es'" and es: "es = (f0, t0, g0) # es'"
    by (auto split: option.splits)
  have "read_entries F' T' G' (Suc i) (Suc n) = Some (es' @ [(f, t, g)])"
    by (rule Suc.IH [OF r]) (use Suc.prems in simp_all)
  moreover have "cell F' i = Some (Some f0)" "cell T' i = Some (Some t0)" "cell G' i = Some g0"
    using c Suc.prems by simp_all
  ultimately show ?case
    unfolding es by (simp del: read_entries.simps add: read_entries.simps(2) [of F' T' G' i "Suc n"])
qed

lemma case_v_push:
  assumes inv: "vol_inv c es" and wf: "2 \<le> length (fields x)"
  shows "\<exists>c'. case_v x c = Inr c' \<and> vol_inv c' (es @ [entry x])
           \<and> (\<exists>b. volumeMapFrom c' = Some b \<and> cell b (Suc (length es)) = Some None)
           \<and> sshPubKey c' = sshPubKey c \<and> user c' = user c \<and> uid c' = uid c
           \<and> minNodeSpec c' = minNodeSpec c \<and> verbose c' = verbose c
           \<and> imageType c' = imageType c \<and> imageIdentifier c' = imageIdentifier c"
proof -
  from wf have f: "field x 0 = Some (fields x ! 0)" "field x 1 = Some (fields x ! 1)"
    by (auto simp: field_def)
  from inv have cap: "volumeMap_capacity c = 0" and
    p: "volumeMapFrom_ptr c = length es" "volumeMapTo_ptr c = length es"
       "volumeMapFlags_ptr c = length es" and vm: "volumeMap c = Some es"
    by (simp_all add: vol_inv_def)
  show ?thesis
  proof (cases "volumeMapFrom c")
    case None
    with vm have n: "volumeMapTo c = None" "volumeMapFlags c = None" "es = []"
      by (auto simp: volumeMap_def split: option.splits)
    show ?thesis
      using None n cap p f
      by (simp add: case_v_fields vol_inv_def volumeMap_def realloc_def store_def
            VOLUME_ALLOC_BLOCK_def entry_def Let_def)
  next
    case (Some F)
    with vm obtain T G where tg: "volumeMapTo c = Some T" "volumeMapFlags c = Some G"
      and r: "read_entries F T G 0 (length es) = Some es"
      using p by (auto simp: volumeMap_def split: option.splits)
    define F' where "F' = F\<lparr>bytes := 10,
        cell := (cell F)(length es := Some (Some (fields x ! 0)), Suc (length es) := Some None)\<rparr>"
    define T' where "T' = T\<lparr>bytes := 10,
        cell := (cell T)(length es := Some (Some (fields x ! 1)), Suc (length es) := Some None)\<rparr>"
    define G' where "G' = G\<lparr>bytes := 10,
        cell := (cell G)(length es := Some (field x 2), Suc (length es) := Some None)\<rparr>"
    have "read_entries F' T' G' 0 (Suc (length es)) = Some (es @ [entry x])"
      unfolding entry_def
      by (rule read_entries_store [OF r]) (simp_all add: F'_def T'_def G'_def)
    moreover have "case_v x c = Inr (c\<lparr>volumeMapFrom := Some F', volumeMapTo := Some T',
        volumeMapFlags := Some G', volumeMapFrom_ptr := Suc (length es),
        volumeMapTo_ptr := Suc (length es), volumeMapFlags_ptr := Suc (length es)\<rparr>)"
      using Some tg cap p f
      by (simp add: case_v_fields realloc_def store_def VOLUME_ALLOC_BLOCK_def Let_def
            F'_def T'_def G'_def)
    ultimately show ?thesis
      using cap by (simp add: vol_inv_def volumeMap_def F'_def)
  qed
qed

lemma getopt_v:
  "getopt optstring \<lparr>nextchar = [], pending = ''-v'' # x # rest, skipped = sk\<rparr>
     = (Arg CHR ''v'' x, \<lparr>nextchar = [], pending = rest, skipped = sk\<rparr>)"
  by (simp add: getopt_def getopt_short_def NONOPTION_P_def optstring_def)

lemma parse_loop_volumes:
  assumes "vol_inv c es" "\<forall>x \<in> set xs. 2 \<le> length (fields x)" "\<forall>a \<in> set rest. NONOPTION_P a"
  shows "\<exists>c'. parse_loop \<lparr>nextchar = [], pending = v_options xs @ rest, skipped = []\<rparr> c
                 = Inr (c', rest)
           \<and> vol_inv c' (es @ map entry xs)
           \<and> (xs \<noteq> [] \<longrightarrow>
                (\<exists>b. volumeMapFrom c' = Some b \<and> cell b (length (es @ map entry xs)) = Some None))
           \<and> sshPubKey c' = sshPubKey c \<and> user c' = user c \<and> uid c' = uid c
           \<and> minNodeSpec c' = minNodeSpec c \<and> verbose c' = verbose c
           \<and> imageType c' = imageType c \<and> imageIdentifier c' = imageIdentifier c"
  using assms
proof (induction xs arbitrary: c es)
  case Nil
  then show ?case
    using parse_loop_nonoptions [of rest "[]" c] by (simp add: v_options_def)
next
  case (Cons x xs)
  from Cons.prems have wf: "2 \<le> length (fields x)" by simp
  from case_v_push [OF Cons.prems(1) wf] obtain c1 where
    c1: "case_v x c = Inr c1" "vol_inv c1 (es @ [entry x])"
      "\<exists>b. volumeMapFrom c1 = Some b \<and> cell b (Suc (length es)) = Some None"
      "sshPubKey c1 = sshPubKey c" "user c1 = user c" "uid c1 = uid c"
      "minNodeSpec c1 = minNodeSpec c" "verbose c1 = verbose c"
      "imageType c1 = imageType c" "imageIdentifier c1 = imageIdentifier c"
    by blast
  from Cons.IH [OF c1(2) _ Cons.prems(3)] Cons.prems(2) obtain c' where
    c': "parse_loop \<lparr>nextchar = [], pending = v_options xs @ rest, skipped = []\<rparr> c1
                 = Inr (c', rest)"
      "vol_inv c' ((es @ [entry x]) @ map entry xs)"
      "xs \<noteq> [] \<longrightarrow> (\<exists>b. volumeMapFrom c' = Some b
           \<and> cell b (length ((es @ [entry x]) @ map entry xs)) = Some None)"
      "sshPubKey c' = sshPubKey c1" "user c' = user c1" "uid c' = uid c1"
      "minNodeSpec c' = minNodeSpec c1" "verbose c' = verbose c1"
      "imageType c' = imageType c1" "imageIdentifier c' = imageIdentifier c1"
    by auto
  have step: "parse_loop \<lparr>nextchar = [], pending = v_options (x # xs) @ rest, skipped = []\<rparr> c
          = parse_loop \<lparr>nextchar = [], pending = v_options xs @ rest, skipped = []\<rparr> c1"
    by (subst parse_loop.simps) (simp add: v_options_def getopt_v c1(1))
  have last: "\<exists>b. volumeMapFrom c' = Some b
           \<and> cell b (length (es @ map entry (x # xs))) = Some None"
  proof (cases "xs = []")
    case True
    with c'(1) c1(3) parse_loop_nonoptions [OF Cons.prems(3), of "[]" c1] show ?thesis
      by (simp add: v_options_def)
  next
    case False
    with c'(3) show ?thesis by simp
  qed
  show ?case
    using step c' c1 last by simp
qed

lemma vol_inv_zero: "vol_inv zero_SetupRootConfig []"
  by (simp add: vol_inv_def zero_SetupRootConfig_def volumeMap_def)

lemma volumeMap_image_update [simp]:
  "volumeMap (c\<lparr>imageType := a, imageIdentifier := b\<rparr>) = volumeMap c"
  by (simp add: volumeMap_def split: option.splits)

lemma parse_volumes:
  assumes "\<forall>x \<in> set xs. 2 \<le> length (fields x)" "NONOPTION_P t" "NONOPTION_P i"
  shows "\<exists>c'. parse_SetupRootConfig (prog # v_options xs @ [t, i]) zero_SetupRootConfig
                  = Inr (0, c')
           \<and> volumeMap c' = Some (map entry xs)
           \<and> volumeMap_capacity c' = 0 \<and> volumeMapFrom_ptr c' = length xs
           \<and> (xs \<noteq> [] \<longrightarrow> (\<exists>b. volumeMapFrom c' = Some b \<and> bytes b = 10
                                \<and> cell b (length xs) = Some None))"
proof -
  from assms(2,3) have rest: "\<forall>a \<in> set [t, i]. NONOPTION_P a" by simp
  from parse_loop_volumes [OF vol_inv_zero assms(1) rest] obtain c' where
    c': "parse_loop \<lparr>nextchar = [], pending = v_options xs @ [t, i], skipped = []\<rparr>
           zero_SetupRootConfig = Inr (c', [t, i])"
      "vol_inv c' (map entry xs)"
      "xs \<noteq> [] \<longrightarrow> (\<exists>b. volumeMapFrom c' = Some b \<and> cell b (length (map entry xs)) = Some None)"
    by auto
  from parse_after_loop(2) [of "prog # v_options xs @ [t, i]" zero_SetupRootConfig c' "[t, i]" t i]
    c'(1)
  have "parse_SetupRootConfig (prog # v_options xs @ [t, i]) zero_SetupRootConfig
          = Inr (0, c'\<lparr>imageType := filterString (Some t),
                        imageIdentifier := filterString (Some i)\<rparr>)"
    by simp
  with c'(2,3) show ?thesis
    by (auto simp: vol_inv_def)
qed

lemmas fields_eval = fields_def field_def entry_def

lemma fields_missing:
  assumes "length (fields x) < 2"
  shows "from_or_to_missing x"
proof (rule ccontr)
  assume n: "\<not> from_or_to_missing x"
  then obtain a b r where s: "split_colon x = a # b # r"
    by (cases "split_colon x"; cases "tl (split_colon x)")
       (auto simp: from_or_to_missing_def position_def)
  with n have "a \<noteq> []" "b \<noteq> []"
    by (auto simp: from_or_to_missing_def position_def)
  with s assms show False by (simp add: fields_def)
qed

lemma chain_sshd:
  assumes "chain (next_stage img c) E Step_parse_UdiRootConfig evs"
  shows "invoked Step_startSshd (prologue envp r @ evs) \<longrightarrow> ssh_gate c"
    and "invoked Step_parse_UdiRootConfig (prologue envp r @ evs)"
  using assms
   apply (erule_tac chainE; simp add: invoked_def prologue_def split: if_splits)+
  done

lemma strtoul_no_digits: "strtoul_subject x = [] \<Longrightarrow> strtoul x = 0"
  by (simp add: strtoul_def)

lemma parse_ssh_options:
  assumes "NONOPTION_P t" "NONOPTION_P i"
  shows "parse_SetupRootConfig [prog, ''-s'', k, ''-u'', u, ''-U'', x, t, i] zero_SetupRootConfig
    = Inr (0, zero_SetupRootConfig\<lparr>sshPubKey := Some k, user := Some u,
                uid := ucast (strtoul x), imageType := filterString (Some t),
                imageIdentifier := filterString (Some i)\<rparr>)"
proof -
  have g: "getopt optstring \<lparr>nextchar = [], pending = [CHR ''-'', o'] # a # rest, skipped = []\<rparr>
      = (Arg o' a, \<lparr>nextchar = [], pending = rest, skipped = []\<rparr>)"
    if "o' \<in> set ''sUu''" for o' a rest
    using that by (auto simp: getopt_def getopt_short_def NONOPTION_P_def optstring_def)
  from assms have n: "\<forall>a \<in> set [t, i]. NONOPTION_P a" by simp
  have "parse_loop \<lparr>nextchar = [], pending = [''-s'', k, ''-u'', u, ''-U'', x, t, i], skipped = []\<rparr>
          zero_SetupRootConfig
        = Inr (zero_SetupRootConfig\<lparr>sshPubKey := Some k, user := Some u,
                uid := ucast (strtoul x)\<rparr>, [t, i])"
    apply (subst parse_loop.simps, simp add: g)
    apply (subst parse_loop.simps, simp add: g)
    apply (subst parse_loop.simps, simp add: g)
    apply (simp add: parse_loop_nonoptions [OF n, of "[]", simplified])
    done
  from parse_after_loop(2) [of "[prog, ''-s'', k, ''-u'', u, ''-U'', x, t, i]"
      zero_SetupRootConfig _ "[t, i]" t i] this
  show ?thesis by simp
qed

text \<open>
  Any number of well-formed \<^verbatim>\<open>-v\<close> options: the entries are stored in the order of
  the options, the block asked for is 10 bytes, and the null pointer that ends the
  array lies outside it.
\<close>

lemma volume_blocks_never_grow:
  assumes "xs \<noteq> []" "\<forall>x \<in> set xs. 2 \<le> length (fields x)" "NONOPTION_P t" "NONOPTION_P i"
  shows "\<exists>c b. parse_SetupRootConfig (prog # v_options xs @ [t, i]) zero_SetupRootConfig
                  = Inr (0, c)
           \<and> volumeMap c = Some (map entry xs)
           \<and> volumeMap_capacity c = 0
           \<and> volumeMapFrom c = Some b \<and> bytes b = 10
           \<and> cell b (length xs) = Some None \<and> \<not> in_bounds b (length xs)"
proof -
  from parse_volumes [OF assms(2-4), of prog] assms(1) obtain c b where
    c: "parse_SetupRootConfig (prog # v_options xs @ [t, i]) zero_SetupRootConfig = Inr (0, c)"
      "volumeMap c = Some (map entry xs)" "volumeMap_capacity c = 0"
      "volumeMapFrom c = Some b" "bytes b = 10" "cell b (length xs) = Some None"
    by auto
  from assms(1) have "1 \<le> length xs" by (cases xs) simp_all
  then have "\<not> in_bounds b (length xs)"
    by (simp add: in_bounds_def sizeof_char_ptr_def c(5))
  with c show ?thesis by blast
qed

section \<open>The claims\<close>

text \<open>
  C1. Ordering and gating of the pipeline. In every run of \<^verbatim>\<open>main\<close>:
  \<^verbatim>\<open>mountImageLoop\<close> is called exactly when \<^verbatim>\<open>getImage\<close> has returned 0 and the
  resolved image has \<^verbatim>\<open>useLoopMount\<close> set; every call of \<^verbatim>\<open>mountImageVFS\<close> comes
  after a call of \<^verbatim>\<open>getImage\<close> that returned 0; every call of \<^verbatim>\<open>setupUserMounts\<close>
  comes after a call of \<^verbatim>\<open>mountImageVFS\<close> that returned 0; and \<^verbatim>\<open>setupImageSsh\<close> is
  called exactly when the pipeline has come to its gate (\<^verbatim>\<open>mountImageVFS\<close> has returned
  0) and the key and the user are present and not empty and the uid is not zero.
\<close>

theorem pipeline_order:
  assumes "main K argv envp w = (st, p)"
  shows "(invoked Step_mountImageLoop (trace p) \<longleftrightarrow>
            succeeded Step_getImage (trace p) \<and> useLoopMount (image p) \<noteq> 0)
     \<and> never_before Step_mountImageVFS Step_getImage (trace p)
     \<and> never_before Step_setupUserMounts Step_mountImageVFS (trace p)
     \<and> (invoked Step_setupImageSsh (trace p) \<longleftrightarrow>
            succeeded Step_mountImageVFS (trace p)
            \<and> (\<exists>k u. sshPubKey (config p) = Some k \<and> k \<noteq> [] \<and> user (config p) = Some u
                   \<and> u \<noteq> [] \<and> uid (config p) \<noteq> 0))"
proof -
  from main_run [OF assms] consider
    (exited) "trace p = prologue envp None" "config p = zero_SetupRootConfig"
  | (parsed) evs where "trace p = prologue envp (Some 0) @ evs"
      "chain (next_stage (image p) (config p)) trusted_env Step_parse_UdiRootConfig evs"
    by blast
  then show ?thesis
  proof cases
    case exited
    then show ?thesis
      by (simp add: prologue_def invoked_def succeeded_def never_before_Nil never_before_Cons
            zero_SetupRootConfig_def)
  next
    case parsed
    from chain_facts(1-4) [OF parsed(2), of envp "Some 0"] show ?thesis
      unfolding parsed(1) ssh_gate_def by blast
  qed
qed

theorem pipeline_order_witness:
  "main K_ok argv_ssh envp_untrusted () =
     (fst (main K_ok argv_ssh envp_untrusted ()), snd (main K_ok argv_ssh envp_untrusted ()))
   \<and> invoked Step_mountImageLoop (trace (snd (main K_ok argv_ssh envp_untrusted ())))
   \<and> invoked Step_setupImageSsh (trace (snd (main K_ok argv_ssh envp_untrusted ())))
   \<and> never_before Step_mountImageVFS Step_getImage (trace (snd (main K_ok argv_ssh envp_untrusted ())))
   \<and> never_before Step_setupUserMounts Step_mountImageVFS (trace (snd (main K_ok argv_ssh envp_untrusted ())))"
proof -
  have run: "main K_ok argv_ssh envp_untrusted () =
     (fst (main K_ok argv_ssh envp_untrusted ()), snd (main K_ok argv_ssh envp_untrusted ()))"
    by simp
  have "succeeded Step_getImage (trace (snd (main K_ok argv_ssh envp_untrusted ())))"
       "useLoopMount (image (snd (main K_ok argv_ssh envp_untrusted ()))) \<noteq> 0"
       "succeeded Step_mountImageVFS (trace (snd (main K_ok argv_ssh envp_untrusted ())))"
       "sshPubKey (config (snd (main K_ok argv_ssh envp_untrusted ()))) = Some ''key''"
       "user (config (snd (main K_ok argv_ssh envp_untrusted ()))) = Some ''alice''"
       "uid (config (snd (main K_ok argv_ssh envp_untrusted ()))) = 1000"
    by (simp_all add: run_eval succeeded_def)
  with pipeline_order [OF run] run show ?thesis
    by simp
qed

text \<open>
  C2. Abort on the first failure. The exit status is 0 or 1; it is 0 exactly when every
  call in the log returned 0; a call that did not return 0 is the last call of the run
  (no later stage is invoked); a run with status 1 has written one line, which is a line
  of the stage that was called last, and the lines of different stages are different; a
  run with status 0 has written nothing; and when \<^verbatim>\<open>mountImageVFS\<close> fails, none of
  \<^verbatim>\<open>setupImageSsh\<close>, \<^verbatim>\<open>startSshd\<close> and \<^verbatim>\<open>setupUserMounts\<close> is called.
\<close>

theorem abort_on_first_failure:
  assumes "main K argv envp w = (st, p)"
  shows "(st = 0 \<or> st = 1)
     \<and> (st = 0 \<longleftrightarrow> (\<forall>e \<in> set (trace p). ret e = Some 0))
     \<and> (\<forall>i < length (trace p). ret (trace p ! i) \<noteq> Some 0 \<longrightarrow> Suc i = length (trace p))
     \<and> (st = 1 \<longrightarrow> (\<exists>d. stderr p = [d] \<and> d \<in> diagnostics (fst (last (trace p))) (config p)))
     \<and> (st = 0 \<longrightarrow> stderr p = [])
     \<and> ((\<exists>e \<in> set (trace p). fst e = Step_mountImageVFS \<and> ret e \<noteq> Some 0) \<longrightarrow>
           \<not> invoked Step_setupImageSsh (trace p) \<and> \<not> invoked Step_startSshd (trace p)
           \<and> \<not> invoked Step_setupUserMounts (trace p))
     \<and> (\<forall>s s' c c'. s \<noteq> s' \<longrightarrow> diagnostics s c \<inter> diagnostics s' c' = {})"
proof -
  have dis: "\<forall>s s' c c'. s \<noteq> s' \<longrightarrow> diagnostics s c \<inter> diagnostics s' c' = {}"
    using diagnostics_disjoint by blast
  from main_run [OF assms] consider
    (exited) m where "m \<in> parse_diagnostics" "st = 1" "stderr p = [m]"
      "trace p = prologue envp None"
  | (parsed) evs where "trace p = prologue envp (Some 0) @ evs"
      "chain (next_stage (image p) (config p)) trusted_env Step_parse_UdiRootConfig evs"
      "st = (if ret (last evs) = Some 0 then 0 else 1)"
      "stderr p = (if ret (last evs) = Some 0 then []
                            else [diagnostic (fst (last evs)) (config p)])"
    by blast
  then have "(st = 0 \<or> st = 1)
     \<and> (st = 0 \<longleftrightarrow> (\<forall>e \<in> set (trace p). ret e = Some 0))
     \<and> (\<forall>i < length (trace p). ret (trace p ! i) \<noteq> Some 0 \<longrightarrow> Suc i = length (trace p))
     \<and> (st = 1 \<longrightarrow> (\<exists>d. stderr p = [d] \<and> d \<in> diagnostics (fst (last (trace p))) (config p)))
     \<and> (st = 0 \<longrightarrow> stderr p = [])
     \<and> ((\<exists>e \<in> set (trace p). fst e = Step_mountImageVFS \<and> ret e \<noteq> Some 0) \<longrightarrow>
           \<not> invoked Step_setupImageSsh (trace p) \<and> \<not> invoked Step_startSshd (trace p)
           \<and> \<not> invoked Step_setupUserMounts (trace p))"
  proof cases
    case exited
    have "\<forall>i < length (trace p). ret (trace p ! i) \<noteq> Some 0 \<longrightarrow> Suc i = length (trace p)"
      by (rule allI, rule impI, rule impI, rule last_only_fails [of "trace p"])
         (simp_all add: exited prologue_def)
    with exited show ?thesis
      by (simp add: prologue_def invoked_def diagnostics_def)
  next
    case parsed
    note g = chain_generic [OF parsed(2)]
    note st = chain_stages [OF parsed(2)]
    have ne: "evs \<noteq> []" by (rule g(1))
    have last: "last (trace p) = last evs" using ne by (simp add: parsed(1))
    have bl: "butlast (trace p) = prologue envp (Some 0) @ butlast evs"
      using ne by (simp add: parsed(1) butlast_append)
    have all_bl: "\<forall>e \<in> set (butlast (trace p)). ret e = Some 0"
      using g(2) by (auto simp: bl prologue_def)
    have one: "\<forall>i < length (trace p). ret (trace p ! i) \<noteq> Some 0 \<longrightarrow> Suc i = length (trace p)"
      by (intro allI impI) (rule last_only_fails [OF all_bl])
    have tne: "trace p \<noteq> []" by (simp add: parsed(1) prologue_def)
    have "set (butlast (trace p) @ [last (trace p)]) = set (butlast (trace p)) \<union> {last evs}"
      by (simp add: last)
    then have split: "set (trace p) = set (butlast (trace p)) \<union> {last evs}"
      by (simp only: append_butlast_last_id [OF tne])
    have zero: "st = 0 \<longleftrightarrow> (\<forall>e \<in> set (trace p). ret e = Some 0)"
      using all_bl parsed(3) by (auto simp: split)
    have stage: "fst (last evs) \<noteq> Step_clearenv" "fst (last evs) \<noteq> Step_setenv"
      "fst (last evs) \<noteq> Step_parse_SetupRootConfig"
      using st ne last_in_set by blast+
    have msg: "st = 1 \<longrightarrow> (\<exists>d. stderr p = [d] \<and> d \<in> diagnostics (fst (last (trace p))) (config p))"
      using parsed(3,4) stage by (simp add: last diagnostics_def)
    have vfs: "(\<exists>e \<in> set (trace p). fst e = Step_mountImageVFS \<and> ret e \<noteq> Some 0) \<longrightarrow>
           \<not> invoked Step_setupImageSsh (trace p) \<and> \<not> invoked Step_startSshd (trace p)
           \<and> \<not> invoked Step_setupUserMounts (trace p)"
      using chain_facts(5) [OF parsed(2), of envp "Some 0"]
      by (simp add: parsed(1)) (simp add: prologue_def)
    show ?thesis
      using one zero msg vfs parsed(3,4) by (cases "ret (last evs) = Some 0") simp_all
  qed
  with dis show ?thesis by blast
qed

theorem abort_on_first_failure_witness:
  "main K_vfs_fails argv_ssh envp_untrusted () =
     (fst (main K_vfs_fails argv_ssh envp_untrusted ()), snd (main K_vfs_fails argv_ssh envp_untrusted ()))
   \<and> fst (main K_vfs_fails argv_ssh envp_untrusted ()) = 1
   \<and> stderr (snd (main K_vfs_fails argv_ssh envp_untrusted ())) = [''FAILED to mount image into UDI\<newline>'']
   \<and> \<not> invoked Step_setupImageSsh (trace (snd (main K_vfs_fails argv_ssh envp_untrusted ())))
   \<and> \<not> invoked Step_startSshd (trace (snd (main K_vfs_fails argv_ssh envp_untrusted ())))
   \<and> \<not> invoked Step_setupUserMounts (trace (snd (main K_vfs_fails argv_ssh envp_untrusted ())))
   \<and> fst (main K_ok argv_ssh envp_untrusted ()) = 0"
proof -
  have run: "main K_vfs_fails argv_ssh envp_untrusted () =
     (fst (main K_vfs_fails argv_ssh envp_untrusted ()), snd (main K_vfs_fails argv_ssh envp_untrusted ()))"
    by simp
  have run': "main K_ok argv_ssh envp_untrusted () =
     (fst (main K_ok argv_ssh envp_untrusted ()), snd (main K_ok argv_ssh envp_untrusted ()))"
    by simp
  have tr: "trace (snd (main K_vfs_fails argv_ssh envp_untrusted ())) =
      prologue envp_untrusted (Some 0) @ [(Step_parse_UdiRootConfig, trusted_env, Some 0),
        (Step_getImage, trusted_env, Some 0), (Step_mountImageLoop, trusted_env, Some 0),
        (Step_mountImageVFS, trusted_env, Some 1)]"
    by (simp add: run_eval prologue_def trusted_env_def)
  have ok: "\<forall>e \<in> set (trace (snd (main K_ok argv_ssh envp_untrusted ()))). ret e = Some 0"
    by (simp add: run_eval)
  have d: "diagnostics Step_mountImageVFS c = {''FAILED to mount image into UDI\<newline>''}" for c
    by (simp add: diagnostics_def)
  from abort_on_first_failure [OF run] abort_on_first_failure [OF run'] tr ok d run
  show ?thesis
    by (auto simp: prologue_def)
qed

text \<open>
  C3. Reset of the environment. Whatever the inherited environment, the first two calls
  of \<^verbatim>\<open>main\<close> are \<^verbatim>\<open>clearenv\<close> and, in the empty environment, \<^verbatim>\<open>setenv\<close>; the
  parser and every collaborator are called after them, in the environment that holds
  \<^verbatim>\<open>PATH=/usr/bin:/usr/sbin:/bin:/sbin\<close> and nothing else, which is also the
  environment at the end of the run.
\<close>

theorem environment_reset:
  assumes "main K argv envp w = (st, p)"
  shows "environ p = [(''PATH'', ''/usr/bin:/usr/sbin:/bin:/sbin'')]
     \<and> (\<exists>rest. trace p = (Step_clearenv, envp, Some 0) # (Step_setenv, [], Some 0) # rest
           \<and> fst (hd rest) = Step_parse_SetupRootConfig
           \<and> (\<forall>e \<in> set rest. fst e \<noteq> Step_clearenv \<and> fst e \<noteq> Step_setenv
                 \<and> fst (snd e) = [(''PATH'', ''/usr/bin:/usr/sbin:/bin:/sbin'')]))"
proof -
  from main_run [OF assms] have env: "environ p = trusted_env" by blast
  from main_run [OF assms] consider
    (exited) "trace p = prologue envp None"
  | (parsed) evs where "trace p = prologue envp (Some 0) @ evs"
      "chain (next_stage (image p) (config p)) trusted_env Step_parse_UdiRootConfig evs"
    by blast
  then have "\<exists>rest. trace p = (Step_clearenv, envp, Some 0) # (Step_setenv, [], Some 0) # rest
           \<and> fst (hd rest) = Step_parse_SetupRootConfig
           \<and> (\<forall>e \<in> set rest. fst e \<noteq> Step_clearenv \<and> fst e \<noteq> Step_setenv
                 \<and> fst (snd e) = trusted_env)"
  proof cases
    case exited
    then show ?thesis by (simp add: prologue_def)
  next
    case parsed
    from chain_generic(4) [OF parsed(2)] chain_stages [OF parsed(2)]
    show ?thesis
      by (intro exI [of _ "(Step_parse_SetupRootConfig, trusted_env, Some 0) # evs"])
         (simp add: parsed(1) prologue_def)
  qed
  with env show ?thesis by (simp add: trusted_env_def)
qed

theorem environment_reset_witness:
  "main K_ok argv_ssh envp_untrusted () =
     (fst (main K_ok argv_ssh envp_untrusted ()), snd (main K_ok argv_ssh envp_untrusted ()))
   \<and> environ (snd (main K_ok argv_ssh envp_untrusted ())) = [(''PATH'', ''/usr/bin:/usr/sbin:/bin:/sbin'')]
   \<and> length (trace (snd (main K_ok argv_ssh envp_untrusted ()))) = 10"
proof -
  have run: "main K_ok argv_ssh envp_untrusted () =
     (fst (main K_ok argv_ssh envp_untrusted ()), snd (main K_ok argv_ssh envp_untrusted ()))"
    by simp
  have "length (trace (snd (main K_ok argv_ssh envp_untrusted ()))) = 10"
    by (simp add: run_eval)
  with environment_reset [OF run] run show ?thesis by simp
qed

text \<open>
  C4. The sanitization filter. A null input gives null. For a string \<open>s\<close> the result
  is a string: the characters of \<open>s\<close> that are in \<^verbatim>\<open>[A-Za-z0-9_:.+-]\<close>, in their
  order (so it holds permitted characters only and is a subsequence of \<open>s\<close>), and it
  is empty when no character of \<open>s\<close> is permitted.
\<close>

theorem filterString_contract:
  "filterString None = None \<and>
   (\<exists>out. filterString (Some s) = Some out
      \<and> out = filter (\<lambda>c. c \<in> permitted) s
      \<and> set out \<subseteq> permitted
      \<and> subseq out s
      \<and> ((\<forall>c \<in> set s. c \<notin> permitted) \<longrightarrow> out = []))"
proof -
  have none: "filterString None = None"
    by (simp add: filterString_def)
  have eq: "filter keeps s = filter (\<lambda>c. c \<in> permitted) s"
    by (rule filter_cong) (simp_all add: keeps_permitted)
  have "filterString (Some s) = Some (filter (\<lambda>c. c \<in> permitted) s)"
    by (simp add: filterString_Some eq)
  moreover have "set (filter (\<lambda>c. c \<in> permitted) s) \<subseteq> permitted"
    by auto
  moreover have "subseq (filter (\<lambda>c. c \<in> permitted) s) s"
    by simp
  moreover have "(\<forall>c \<in> set s. c \<notin> permitted) \<longrightarrow> filter (\<lambda>c. c \<in> permitted) s = []"
    by (simp add: filter_empty_conv)
  ultimately show ?thesis
    using none by blast
qed

theorem filterString_contract_witness:
  "filterString (Some ''a/b c_d:1.2+3-4$'') = Some ''abc_d:1.2+3-4''
   \<and> filterString (Some ''/ $'') = Some ''''"
  using filterString_contract [of "''a/b c_d:1.2+3-4$''"] filterString_contract [of "''/ $''"]
  by (simp add: permitted_def)

text \<open>
  C5. Repeated \<^verbatim>\<open>-v\<close> options. The entries are stored in the order of the options,
  but the arrays do not grow: every \<^verbatim>\<open>-v\<close> asks \<^verbatim>\<open>realloc\<close> for
  \<^verbatim>\<open>volumeMap_capacity + VOLUME_ALLOC_BLOCK\<close> bytes, the capacity is never assigned and
  stays 0, so the block is 10 bytes whatever the number of options. With one option
  the null pointer that ends the array is stored at slot 1, outside the block; with
  three options so are the third entry and the terminator.
\<close>

theorem volume_map_overrun:
  "(\<exists>c F. parse_SetupRootConfig argv_one_volume zero_SetupRootConfig = Inr (0, c)
      \<and> volumeMap c = Some [(''a'', ''b'', None)]
      \<and> volumeMap_capacity c = 0
      \<and> volumeMapFrom c = Some F \<and> bytes F = 10
      \<and> cell F 1 = Some None \<and> \<not> in_bounds F 1)
   \<and> (\<exists>c F. parse_SetupRootConfig argv_three_volumes zero_SetupRootConfig = Inr (0, c)
      \<and> volumeMap c = Some [(''a'', ''b'', None), (''c'', ''d'', Some ''ro''), (''e'', ''f'', None)]
      \<and> volumeMap_capacity c = 0
      \<and> volumeMapFrom c = Some F \<and> bytes F = 10
      \<and> cell F 2 = Some (Some ''e'') \<and> \<not> in_bounds F 2
      \<and> cell F 3 = Some None \<and> \<not> in_bounds F 3)"
proof -
  have one: "argv_one_volume = ''setupRoot'' # v_options [''a:b''] @ [''docker'', ''busybox:latest'']"
    by (simp add: argv_one_volume_def v_options_def)
  have three: "argv_three_volumes
      = ''setupRoot'' # v_options [''a:b'', ''c:d:ro'', ''e:f''] @ [''docker'', ''busybox:latest'']"
    by (simp add: argv_three_volumes_def v_options_def)
  have e: "entry ''a:b'' = (''a'', ''b'', None)" "entry ''c:d:ro'' = (''c'', ''d'', Some ''ro'')"
    "entry ''e:f'' = (''e'', ''f'', None)"
    by (simp_all add: fields_eval)
  have wf: "2 \<le> length (fields ''a:b'')" "2 \<le> length (fields ''c:d:ro'')"
    "2 \<le> length (fields ''e:f'')"
    by (simp_all add: fields_eval)
  have n: "NONOPTION_P ''docker''" "NONOPTION_P ''busybox:latest''"
    by (simp_all add: NONOPTION_P_def)
  from parse_volumes [of "[''a:b'']" "''docker''" "''busybox:latest''" "''setupRoot''"] wf n
  obtain c F where
    "parse_SetupRootConfig argv_one_volume zero_SetupRootConfig = Inr (0, c)"
    "volumeMap c = Some [(''a'', ''b'', None)]" "volumeMap_capacity c = 0"
    "volumeMapFrom c = Some F" "bytes F = 10" "cell F 1 = Some None"
    unfolding one by (auto simp: e)
  moreover
  from parse_volumes [of "[''a:b'', ''c:d:ro'', ''e:f'']" "''docker''" "''busybox:latest''" "''setupRoot''"] wf n
  obtain c3 F3 where
    c3: "parse_SetupRootConfig argv_three_volumes zero_SetupRootConfig = Inr (0, c3)"
    "volumeMap c3 = Some [(''a'', ''b'', None), (''c'', ''d'', Some ''ro''), (''e'', ''f'', None)]"
    "volumeMap_capacity c3 = 0"
    "volumeMapFrom c3 = Some F3" "bytes F3 = 10" "cell F3 (Suc (Suc (Suc 0))) = Some None"
    "volumeMapFrom_ptr c3 = Suc (Suc (Suc 0))"
    unfolding three by (auto simp: e)
  moreover have "cell F3 (Suc (Suc 0)) = Some (Some ''e'')"
    using c3(2,4,7) by (auto simp: volumeMap_def split: option.splits)
  ultimately show ?thesis
    by (auto simp: in_bounds_def sizeof_char_ptr_def numeral_3_eq_3 numeral_2_eq_2)
qed

text \<open>
  C6, as amended. The option \<^verbatim>\<open>-v\<close>. \<^verbatim>\<open>-v a:b\<close> gives the volume map of the one
  entry (\<open>a\<close>, \<open>b\<close>, no flags), \<^verbatim>\<open>-v a:b:ro\<close> that of (\<open>a\<close>, \<open>b\<close>, \<open>ro\<close>). The
  argument is cut with \<^verbatim>\<open>strtok\<close>, which passes over empty fields. Whenever the loop
  meets a \<^verbatim>\<open>-v\<close> whose argument has fewer than two fields that are not empty, the
  process exits with status 1, and \<^verbatim>\<open>main\<close> then has called no collaborator; in
  every such argument \<^verbatim>\<open>from\<close> or \<^verbatim>\<open>to\<close> is missing. An argument with two or more
  fields that are not empty is accepted, also when its \<^verbatim>\<open>from\<close> or \<^verbatim>\<open>to\<close> position is
  empty: the entry is made of its first two such fields and, if there is one, the third.
  (The stores into the arrays are not checked against the size of the blocks here; that
  is the matter of C5.)
\<close>

theorem volume_option:
  "(\<exists>c. parse_SetupRootConfig [prog, ''-v'', ''a:b'', ''docker'', ''busybox'']
            zero_SetupRootConfig = Inr (0, c)
        \<and> volumeMap c = Some [(''a'', ''b'', None)])
   \<and> (\<exists>c. parse_SetupRootConfig [prog, ''-v'', ''a:b:ro'', ''docker'', ''busybox'']
            zero_SetupRootConfig = Inr (0, c)
        \<and> volumeMap c = Some [(''a'', ''b'', Some ''ro'')])
   \<and> (getopt optstring st = (Arg CHR ''v'' x, st') \<and> length (fields x) < 2 \<longrightarrow>
        parse_loop st c0 = Inl (Exit 1 [''ERROR: invalid format for volume map!'']))
   \<and> (length (fields x) < 2 \<longrightarrow>
        parse_SetupRootConfig (prog # ''-v'' # x # rest) c0
          = Inl (Exit 1 [''ERROR: invalid format for volume map!''])
        \<and> main K (prog # ''-v'' # x # rest) envp w =
            (1, \<lparr>environ = trusted_env, stderr = [''ERROR: invalid format for volume map!''],
                  trace = prologue envp None, world = w, config = zero_SetupRootConfig,
                  image = zero_ImageData\<rparr>))
   \<and> (length (fields x) < 2 \<longrightarrow> from_or_to_missing x)
   \<and> (2 \<le> length (fields x) \<longrightarrow>
        (\<exists>c. parse_SetupRootConfig [prog, ''-v'', x, ''docker'', ''busybox'']
                zero_SetupRootConfig = Inr (0, c)
            \<and> volumeMap c = Some [entry x]))"
proof -
  have n: "NONOPTION_P ''docker''" "NONOPTION_P ''busybox''"
    by (simp_all add: NONOPTION_P_def)
  have "\<exists>c. parse_SetupRootConfig [prog, ''-v'', ''a:b'', ''docker'', ''busybox'']
            zero_SetupRootConfig = Inr (0, c)
        \<and> volumeMap c = Some [(''a'', ''b'', None)]"
    using parse_volumes [of "[''a:b'']" "''docker''" "''busybox''" prog] n
    by (auto simp: fields_eval v_options_def)
  moreover have "\<exists>c. parse_SetupRootConfig [prog, ''-v'', ''a:b:ro'', ''docker'', ''busybox'']
            zero_SetupRootConfig = Inr (0, c)
        \<and> volumeMap c = Some [(''a'', ''b'', Some ''ro'')]"
    using parse_volumes [of "[''a:b:ro'']" "''docker''" "''busybox''" prog] n
    by (auto simp: fields_eval v_options_def)
  moreover have "getopt optstring st = (Arg CHR ''v'' x, st') \<and> length (fields x) < 2 \<longrightarrow>
        parse_loop st c0 = Inl (Exit 1 [''ERROR: invalid format for volume map!''])"
    using parse_loop_malformed_volume by blast
  moreover have "length (fields x) < 2 \<longrightarrow>
        parse_SetupRootConfig (prog # ''-v'' # x # rest) c0
          = Inl (Exit 1 [''ERROR: invalid format for volume map!''])
        \<and> main K (prog # ''-v'' # x # rest) envp w =
            (1, \<lparr>environ = trusted_env, stderr = [''ERROR: invalid format for volume map!''],
                  trace = prologue envp None, world = w, config = zero_SetupRootConfig,
                  image = zero_ImageData\<rparr>)"
  proof
    assume l: "length (fields x) < 2"
    from parse_malformed_volume [OF l]
    have p: "parse_SetupRootConfig (prog # ''-v'' # x # rest) c
               = Inl (Exit 1 [''ERROR: invalid format for volume map!''])" for c .
    from p [of c0] main_parse_exit [OF p [of zero_SetupRootConfig], of K envp w]
    show "parse_SetupRootConfig (prog # ''-v'' # x # rest) c0
          = Inl (Exit 1 [''ERROR: invalid format for volume map!''])
        \<and> main K (prog # ''-v'' # x # rest) envp w =
            (1, \<lparr>environ = trusted_env, stderr = [''ERROR: invalid format for volume map!''],
                  trace = prologue envp None, world = w, config = zero_SetupRootConfig,
                  image = zero_ImageData\<rparr>)"
      by simp
  qed
  moreover have "length (fields x) < 2 \<longrightarrow> from_or_to_missing x"
    using fields_missing by blast
  moreover have "2 \<le> length (fields x) \<longrightarrow>
        (\<exists>c. parse_SetupRootConfig [prog, ''-v'', x, ''docker'', ''busybox'']
                zero_SetupRootConfig = Inr (0, c)
            \<and> volumeMap c = Some [entry x])"
  proof
    assume "2 \<le> length (fields x)"
    then have "\<forall>y \<in> set [x]. 2 \<le> length (fields y)" by simp
    from parse_volumes [OF this n, of prog]
    show "\<exists>c. parse_SetupRootConfig [prog, ''-v'', x, ''docker'', ''busybox'']
                zero_SetupRootConfig = Inr (0, c)
            \<and> volumeMap c = Some [entry x]"
      by (auto simp: v_options_def)
  qed
  ultimately show ?thesis by blast
qed

theorem volume_option_witness:
  "length (fields ''a'') < 2
   \<and> from_or_to_missing ''a''
   \<and> parse_SetupRootConfig argv_malformed_volume zero_SetupRootConfig
        = Inl (Exit 1 [''ERROR: invalid format for volume map!''])
   \<and> fst (main K_ok argv_malformed_volume envp_untrusted ()) = 1
   \<and> trace (snd (main K_ok argv_malformed_volume envp_untrusted ())) = prologue envp_untrusted None
   \<and> 2 \<le> length (fields ''c:d:rw'')
   \<and> (\<exists>c. parse_SetupRootConfig [''setupRoot'', ''-v'', ''c:d:rw'', ''docker'', ''busybox'']
             zero_SetupRootConfig = Inr (0, c)
         \<and> volumeMap c = Some [(''c'', ''d'', Some ''rw'')])"
proof -
  have l: "length (fields ''a'') < 2" "2 \<le> length (fields ''c:d:rw'')"
    "entry ''c:d:rw'' = (''c'', ''d'', Some ''rw'')"
    by (simp_all add: fields_eval)
  from volume_option [of "''setupRoot''" _ "''a''" _ zero_SetupRootConfig
      "[''docker'', ''busybox:latest'']" K_ok envp_untrusted "()"]
    volume_option [of "''setupRoot''" _ "''c:d:rw''"] l
  show ?thesis by (simp add: argv_malformed_volume_def)
qed

text \<open>
  C6 as stated fails: in \<^verbatim>\<open>-v a::ro\<close> the \<^verbatim>\<open>to\<close> component is missing, and yet
  \<^verbatim>\<open>setupRoot -v a::ro docker busybox:latest\<close> ends with status 0 after
  \<^verbatim>\<open>setupUserMounts\<close> was handed the volume map of the one entry (\<open>a\<close>, \<open>ro\<close>, no
  flags).
\<close>

theorem empty_to_counterexample:
  "from_or_to_missing ''a::ro''
   \<and> fst (main K_record argv_empty_to envp_untrusted []) = 0
   \<and> volumeMap (config (snd (main K_record argv_empty_to envp_untrusted [])))
        = Some [(''a'', ''ro'', None)]
   \<and> invoked Step_setupUserMounts (trace (snd (main K_record argv_empty_to envp_untrusted [])))
   \<and> world (snd (main K_record argv_empty_to envp_untrusted []))
        = [(Some (Some ''a''), Some (Some ''ro''), Some None)]"
  by (simp add: from_or_to_missing_def position_def run_eval K_record_def first_slot_def
        argv_empty_to_def volumeMap_def invoked_def)

text \<open>
  C7. The positional arguments. When the loop over the options ends with the arguments
  \<open>rest\<close> left: if their number is not two the process exits with status 1, and if
  they are \<open>a\<close> and \<open>b\<close> the parser returns 0 with \<^verbatim>\<open>imageType\<close> the filtered \<open>a\<close> and
  \<^verbatim>\<open>imageIdentifier\<close> the filtered \<open>b\<close>. When no argument is an option, the arguments
  left are all the arguments.
\<close>

theorem positional_arguments:
  "(parse_loop \<lparr>nextchar = [], pending = drop 1 argv, skipped = []\<rparr> c = Inr (c', rest) \<longrightarrow>
      (length rest \<noteq> 2 \<longrightarrow>
         parse_SetupRootConfig argv c
           = Inl (Exit 1 [''Must specify image type and image identifier\<newline>'']))
      \<and> (\<forall>a b. rest = [a, b] \<longrightarrow>
           parse_SetupRootConfig argv c
             = Inr (0, c'\<lparr>imageType := filterString (Some a),
                          imageIdentifier := filterString (Some b)\<rparr>)))
   \<and> ((\<forall>a \<in> set args. NONOPTION_P a) \<longrightarrow>
        parse_loop \<lparr>nextchar = [], pending = args, skipped = []\<rparr> c = Inr (c, args))"
  using parse_after_loop [of argv c c' rest] parse_loop_nonoptions [of args "[]" c]
  by simp

theorem positional_arguments_witness:
  "parse_SetupRootConfig [''setupRoot'', ''dock/er'', ''busy box:latest''] zero_SetupRootConfig
     = Inr (0, zero_SetupRootConfig\<lparr>imageType := Some ''docker'',
                                    imageIdentifier := Some ''busybox:latest''\<rparr>)
   \<and> parse_SetupRootConfig [''setupRoot'', ''docker''] zero_SetupRootConfig
     = Inl (Exit 1 [''Must specify image type and image identifier\<newline>''])
   \<and> parse_SetupRootConfig [''setupRoot'', ''docker'', ''busybox'', ''extra''] zero_SetupRootConfig
     = Inl (Exit 1 [''Must specify image type and image identifier\<newline>''])"
proof -
  have n: "\<forall>a \<in> set [''dock/er'', ''busy box:latest'']. NONOPTION_P a"
    "\<forall>a \<in> set [''docker'']. NONOPTION_P a"
    "\<forall>a \<in> set [''docker'', ''busybox'', ''extra'']. NONOPTION_P a"
    by (simp_all add: NONOPTION_P_def)
  have f: "filterString (Some ''dock/er'') = Some ''docker''"
    "filterString (Some ''busy box:latest'') = Some ''busybox:latest''"
    by (simp_all add: filterString_Some keeps_def isalnum_def isdigit_def isupper_def islower_def)
  from positional_arguments [of "[''setupRoot'', ''dock/er'', ''busy box:latest'']"
      zero_SetupRootConfig zero_SetupRootConfig "[''dock/er'', ''busy box:latest'']"
      "[''dock/er'', ''busy box:latest'']"]
    positional_arguments [of "[''setupRoot'', ''docker'']"
      zero_SetupRootConfig zero_SetupRootConfig "[''docker'']" "[''docker'']"]
    positional_arguments [of "[''setupRoot'', ''docker'', ''busybox'', ''extra'']"
      zero_SetupRootConfig zero_SetupRootConfig "[''docker'', ''busybox'', ''extra'']"
      "[''docker'', ''busybox'', ''extra'']"]
    n f
  show ?thesis by simp
qed

text \<open>
  C8, as amended. Every failure of the parser ends the process with status 1, and
  \<^verbatim>\<open>main\<close> has then called no collaborator: nothing of a configuration is handed to
  the pipeline. A malformed volume map, an option without its argument and a wrong
  number of positional arguments are such failures. \<^verbatim>\<open>_usage\<close> writes nothing; it
  only exits.
\<close>

theorem parse_failure:
  "(parse_SetupRootConfig argv zero_SetupRootConfig = Inl e \<longrightarrow>
      (\<exists>out. e = Exit 1 out)
      \<and> fst (main K argv envp w) = 1
      \<and> trace (snd (main K argv envp w)) = prologue envp None
      \<and> world (snd (main K argv envp w)) = w)
   \<and> (length (fields x) < 2 \<longrightarrow>
        (\<exists>out. parse_SetupRootConfig (prog # ''-v'' # x # rest) c = Inl (Exit 1 out)))
   \<and> (o' \<in> set ''vsuUN'' \<longrightarrow>
        (\<exists>out. parse_SetupRootConfig [prog, [CHR ''-'', o']] c = Inl (Exit 1 out)))
   \<and> ((\<forall>a \<in> set args. NONOPTION_P a) \<and> length args \<noteq> 2 \<longrightarrow>
        (\<exists>out. parse_SetupRootConfig (prog # args) c = Inl (Exit 1 out)))
   \<and> usage st = Exit st []"
proof -
  have "parse_SetupRootConfig argv zero_SetupRootConfig = Inl e \<longrightarrow>
      (\<exists>out. e = Exit 1 out)
      \<and> fst (main K argv envp w) = 1
      \<and> trace (snd (main K argv envp w)) = prologue envp None
      \<and> world (snd (main K argv envp w)) = w"
  proof
    assume f: "parse_SetupRootConfig argv zero_SetupRootConfig = Inl e"
    from parse_SetupRootConfig_exit [OF f] obtain m where
      m: "e = Exit 1 [m]" by blast
    from main_parse_exit [OF f [unfolded m], of K envp w] m
    show "(\<exists>out. e = Exit 1 out)
      \<and> fst (main K argv envp w) = 1
      \<and> trace (snd (main K argv envp w)) = prologue envp None
      \<and> world (snd (main K argv envp w)) = w"
      by simp
  qed
  moreover have "(\<forall>a \<in> set args. NONOPTION_P a) \<and> length args \<noteq> 2 \<longrightarrow>
        (\<exists>out. parse_SetupRootConfig (prog # args) c = Inl (Exit 1 out))"
  proof
    assume a: "(\<forall>a \<in> set args. NONOPTION_P a) \<and> length args \<noteq> 2"
    then have "parse_loop \<lparr>nextchar = [], pending = drop 1 (prog # args), skipped = []\<rparr> c
                 = Inr (c, args)"
      using parse_loop_nonoptions [of args "[]" c] by simp
    from parse_after_loop(1) [OF this] a
    show "\<exists>out. parse_SetupRootConfig (prog # args) c = Inl (Exit 1 out)"
      by simp
  qed
  moreover have "length (fields x) < 2 \<longrightarrow>
        (\<exists>out. parse_SetupRootConfig (prog # ''-v'' # x # rest) c = Inl (Exit 1 out))"
    using parse_malformed_volume [of x prog rest c] by simp
  moreover have "o' \<in> set ''vsuUN'' \<longrightarrow>
        (\<exists>out. parse_SetupRootConfig [prog, [CHR ''-'', o']] c = Inl (Exit 1 out))"
    using parse_missing_argument [of o' prog c] by simp
  moreover have "usage st = Exit st []"
    by (simp add: usage_def)
  ultimately show ?thesis
    by blast
qed

theorem parse_failure_witness:
  "fst (main K_ok [''setupRoot'', ''-N''] envp_untrusted ()) = 1
   \<and> trace (snd (main K_ok [''setupRoot'', ''-N''] envp_untrusted ())) = prologue envp_untrusted None
   \<and> fst (main K_ok [''setupRoot'', ''-v'', '':b''] envp_untrusted ()) = 1
   \<and> trace (snd (main K_ok [''setupRoot'', ''-v'', '':b''] envp_untrusted ()))
       = prologue envp_untrusted None
   \<and> fst (main K_ok [''setupRoot''] envp_untrusted ()) = 1
   \<and> trace (snd (main K_ok [''setupRoot''] envp_untrusted ())) = prologue envp_untrusted None"
proof -
  have h: "CHR ''N'' \<in> set ''vsuUN''" "length (fields '':b'') < 2"
    "(\<forall>a \<in> set ([] :: string list). NONOPTION_P a) \<and> length ([] :: string list) \<noteq> 2"
    by (simp_all add: fields_eval)
  from parse_failure [of "[]" "Exit 1 []" K_ok "[]" "()" "'':b''" "''setupRoot''" "[]"
      zero_SetupRootConfig "CHR ''N''" "[]" 1] h
  obtain o1 o2 o3 where
    p: "parse_SetupRootConfig [''setupRoot'', ''-v'', '':b''] zero_SetupRootConfig
          = Inl (Exit 1 o1)"
       "parse_SetupRootConfig [''setupRoot'', ''-N''] zero_SetupRootConfig = Inl (Exit 1 o2)"
       "parse_SetupRootConfig [''setupRoot''] zero_SetupRootConfig = Inl (Exit 1 o3)"
    by blast
  from parse_failure [of "[''setupRoot'', ''-N'']" "Exit 1 o2" K_ok envp_untrusted "()"]
    parse_failure [of "[''setupRoot'', ''-v'', '':b'']" "Exit 1 o1" K_ok envp_untrusted "()"]
    parse_failure [of "[''setupRoot'']" "Exit 1 o3" K_ok envp_untrusted "()"] p
  show ?thesis by simp
qed

text \<open>
  C8 as stated fails: for \<^verbatim>\<open>setupRoot -v a docker busybox:latest\<close> all that is written
  is the line about the volume map, and nothing of it by \<^verbatim>\<open>_usage\<close>.
\<close>

theorem no_usage_message:
  "written_by_usage = []
   \<and> parse_SetupRootConfig argv_malformed_volume zero_SetupRootConfig
        = Inl (Exit 1 [''ERROR: invalid format for volume map!''])
   \<and> stderr (snd (main K_ok argv_malformed_volume envp_untrusted ()))
        = [''ERROR: invalid format for volume map!'']"
proof -
  have l: "length (fields ''a'') < 2" by (simp add: fields_eval)
  have p: "parse_SetupRootConfig argv_malformed_volume zero_SetupRootConfig
        = Inl (Exit 1 [''ERROR: invalid format for volume map!''])"
    unfolding argv_malformed_volume_def by (rule parse_malformed_volume [OF l])
  from p main_parse_exit [OF p, of K_ok envp_untrusted "()"] show ?thesis
    by (simp add: written_by_usage_def usage_def)
qed

text \<open>
  C9. On a string of permitted characters the filter is the identity; hence filtering
  twice is filtering once.
\<close>

theorem filterString_identity:
  "(set s \<subseteq> permitted \<longrightarrow> filterString (Some s) = Some s)
   \<and> filterString (filterString x) = filterString x"
proof -
  have "filterString (filterString x) = filterString x"
    by (cases x) (simp_all add: filterString_Some, simp add: filterString_def)
  moreover have "set s \<subseteq> permitted \<longrightarrow> filterString (Some s) = Some s"
    by (auto simp: filterString_Some keeps_permitted filter_id_conv)
  ultimately show ?thesis by simp
qed

theorem filterString_identity_witness:
  "filterString (Some ''busybox:latest'') = Some ''busybox:latest''"
  using filterString_identity [of "''busybox:latest''"]
  by (simp add: permitted_def)

text \<open>
  C10, as amended. The option \<^verbatim>\<open>-U\<close> never fails. When its argument has no decimal digit
  after the white space and the sign that \<^verbatim>\<open>strtoul\<close> skips, the uid recorded is 0; and
  whenever the uid recorded is 0, a command line with \<^verbatim>\<open>-s\<close> and \<^verbatim>\<open>-u\<close> is parsed
  without any error, the pipeline starts, and neither \<^verbatim>\<open>setupImageSsh\<close> nor
  \<^verbatim>\<open>startSshd\<close> is called.
\<close>

theorem uid_zero_skips_ssh:
  "switch_opt (Arg CHR ''U'' x) c = Inr (c\<lparr>uid := ucast (strtoul x)\<rparr>)
   \<and> (strtoul_subject x = [] \<longrightarrow> (ucast (strtoul x) :: 32 word) = 0)
   \<and> ((ucast (strtoul x) :: 32 word) = 0 \<and> NONOPTION_P t \<and> NONOPTION_P i
        \<and> main K [prog, ''-s'', k, ''-u'', u, ''-U'', x, t, i] envp w = (st, p) \<longrightarrow>
        parse_SetupRootConfig [prog, ''-s'', k, ''-u'', u, ''-U'', x, t, i] zero_SetupRootConfig
          = Inr (0, config p)
        \<and> sshPubKey (config p) = Some k \<and> user (config p) = Some u \<and> uid (config p) = 0
        \<and> invoked Step_parse_UdiRootConfig (trace p)
        \<and> \<not> invoked Step_setupImageSsh (trace p) \<and> \<not> invoked Step_startSshd (trace p))"
proof -
  have "(ucast (strtoul x) :: 32 word) = 0 \<and> NONOPTION_P t \<and> NONOPTION_P i
        \<and> main K [prog, ''-s'', k, ''-u'', u, ''-U'', x, t, i] envp w = (st, p) \<longrightarrow>
        parse_SetupRootConfig [prog, ''-s'', k, ''-u'', u, ''-U'', x, t, i] zero_SetupRootConfig
          = Inr (0, config p)
        \<and> sshPubKey (config p) = Some k \<and> user (config p) = Some u \<and> uid (config p) = 0
        \<and> invoked Step_parse_UdiRootConfig (trace p)
        \<and> \<not> invoked Step_setupImageSsh (trace p) \<and> \<not> invoked Step_startSshd (trace p)"
  proof
    assume a: "(ucast (strtoul x) :: 32 word) = 0 \<and> NONOPTION_P t \<and> NONOPTION_P i
        \<and> main K [prog, ''-s'', k, ''-u'', u, ''-U'', x, t, i] envp w = (st, p)"
    then have run: "main K [prog, ''-s'', k, ''-u'', u, ''-U'', x, t, i] envp w = (st, p)"
      and z: "(ucast (strtoul x) :: 32 word) = 0" by simp_all
    from a parse_ssh_options [of t i prog k u x]
    have parsed: "parse_SetupRootConfig [prog, ''-s'', k, ''-u'', u, ''-U'', x, t, i]
        zero_SetupRootConfig
      = Inr (0, zero_SetupRootConfig\<lparr>sshPubKey := Some k, user := Some u,
                uid := 0, imageType := filterString (Some t),
                imageIdentifier := filterString (Some i)\<rparr>)"
      by simp
    with main_run [OF run] obtain evs where
      cfg: "config p = zero_SetupRootConfig\<lparr>sshPubKey := Some k, user := Some u,
                uid := 0, imageType := filterString (Some t),
                imageIdentifier := filterString (Some i)\<rparr>"
      and tr: "trace p = prologue envp (Some 0) @ evs"
      and ch: "chain (next_stage (image p) (config p)) trusted_env Step_parse_UdiRootConfig evs"
      by auto
    have ng: "\<not> ssh_gate (config p)" by (simp add: cfg ssh_gate_def)
    from chain_facts(4) [OF ch, of envp "Some 0"] chain_sshd [OF ch, of envp "Some 0"] ng
    have "invoked Step_parse_UdiRootConfig (trace p)"
      "\<not> invoked Step_setupImageSsh (trace p)" "\<not> invoked Step_startSshd (trace p)"
      unfolding tr by blast+
    with parsed cfg show "parse_SetupRootConfig [prog, ''-s'', k, ''-u'', u, ''-U'', x, t, i]
          zero_SetupRootConfig = Inr (0, config p)
        \<and> sshPubKey (config p) = Some k \<and> user (config p) = Some u \<and> uid (config p) = 0
        \<and> invoked Step_parse_UdiRootConfig (trace p)
        \<and> \<not> invoked Step_setupImageSsh (trace p) \<and> \<not> invoked Step_startSshd (trace p)"
      by simp
  qed
  then show ?thesis
    by (simp add: strtoul_no_digits)
qed

theorem uid_zero_skips_ssh_witness:
  "strtoul_subject ''alice'' = []
   \<and> NONOPTION_P ''docker'' \<and> NONOPTION_P ''busybox:latest''
   \<and> uid (config (snd (main K_ok argv_word_uid envp_untrusted ()))) = 0
   \<and> fst (main K_ok argv_word_uid envp_untrusted ()) = 0
   \<and> \<not> invoked Step_setupImageSsh (trace (snd (main K_ok argv_word_uid envp_untrusted ())))"
proof -
  have h: "strtoul_subject ''alice'' = []" "NONOPTION_P ''docker''" "NONOPTION_P ''busybox:latest''"
    by (simp_all add: strtoul_subject_def isspace_def isdigit_def NONOPTION_P_def)
  have z: "(ucast (strtoul ''alice'') :: 32 word) = 0"
    using h(1) by (simp add: strtoul_def)
  have run: "main K_ok [''setupRoot'', ''-s'', ''key'', ''-u'', ''alice'', ''-U'', ''alice'',
                        ''docker'', ''busybox:latest''] envp_untrusted () =
       (fst (main K_ok argv_word_uid envp_untrusted ()), snd (main K_ok argv_word_uid envp_untrusted ()))"
    by (simp add: argv_word_uid_def)
  have st: "fst (main K_ok argv_word_uid envp_untrusted ()) = 0"
    by (simp add: run_eval argv_word_uid_def)
  from uid_zero_skips_ssh [THEN conjunct2, THEN conjunct2, rule_format,
      OF conjI [OF z conjI [OF h(2) conjI [OF h(3) run]]]]
  have "uid (config (snd (main K_ok argv_word_uid envp_untrusted ()))) = 0
    \<and> \<not> invoked Step_setupImageSsh (trace (snd (main K_ok argv_word_uid envp_untrusted ())))"
    by simp
  with h st show ?thesis by simp
qed

text \<open>
  C10 as stated fails: the argument \<^verbatim>\<open>+5\<close> does not begin with a decimal digit and is
  not \<^verbatim>\<open>0\<close>, yet the uid recorded is 5 and \<^verbatim>\<open>setupImageSsh\<close> is called.
\<close>

theorem signed_uid_counterexample:
  "\<not> isdigit (hd ''+5'') \<and> ''+5'' \<noteq> ''0''
   \<and> uid (config (snd (main K_ok argv_signed_uid envp_untrusted ()))) = 5
   \<and> invoked Step_setupImageSsh (trace (snd (main K_ok argv_signed_uid envp_untrusted ())))"
  by (simp add: run_eval argv_signed_uid_def invoked_def)

end
